theory Spec2Isabelle
  imports Complex_Main "HOL-Library.Word" "HOL-Library.Log_Nat"
begin

unbundle bit_operations_syntax

section \<open>JavaScript strings\<close>

text \<open>
  A JavaScript string is a sequence of UTF-16 code units; \<open>length\<close>, \<open>slice\<close>, \<open>split\<close>
  and \<open>trim\<close> all work on code units. \<open>js\<close> embeds an ASCII literal of the source.
\<close>

type_synonym jschar = "16 word"
type_synonym jsstring = "jschar list"

definition js :: "string \<Rightarrow> jsstring" where
  "js s = map (\<lambda>c. word_of_nat (of_char c)) s"

text \<open>The line terminator \<open>"\n"\<close>.\<close>

definition LF :: jschar where
  "LF = 0x0A"

text \<open>
  \<open>String.prototype.trim\<close> strips the ECMAScript WhiteSpace and LineTerminator code
  points (tab, LF, VT, FF, CR, space, NBSP, the Unicode space separators, LS, PS, BOM)
  from both ends.
\<close>

definition isWhiteSpace :: "jschar \<Rightarrow> bool" where
  "isWhiteSpace c \<longleftrightarrow>
     c = 0x09 \<or> c = 0x0A \<or> c = 0x0B \<or> c = 0x0C \<or> c = 0x0D \<or> c = 0x20 \<or> c = 0xA0
     \<or> c = 0x1680 \<or> (0x2000 \<le> c \<and> c \<le> 0x200A) \<or> c = 0x2028 \<or> c = 0x2029
     \<or> c = 0x202F \<or> c = 0x205F \<or> c = 0x3000 \<or> c = 0xFEFF"

definition trim :: "jsstring \<Rightarrow> jsstring" where
  "trim s = rev (dropWhile isWhiteSpace (rev (dropWhile isWhiteSpace s)))"

text \<open>
  \<open>s.split("\n")\<close>: the pieces between the line terminators, in order; the result
  is never empty, and its last piece is what follows the last terminator.
\<close>

fun split_nl :: "jsstring \<Rightarrow> jsstring list" where
  "split_nl [] = [[]]"
| "split_nl (c # cs) =
    (if c = LF then [] # split_nl cs
     else (case split_nl cs of [] \<Rightarrow> [[c]] | l # ls \<Rightarrow> (c # l) # ls))"

text \<open>
  \<open>s.slice(0, n)\<close> for an integer \<open>n\<close>: the first \<open>n\<close> code units when \<open>n \<ge> 0\<close>;
  a negative \<open>n\<close> counts from the end of the string.
\<close>

definition slice0 :: "jsstring \<Rightarrow> int \<Rightarrow> jsstring" where
  "slice0 s n = (if 0 \<le> n then take (nat n) s else take (nat (int (length s) + n)) s)"

text \<open>
  Decimal rendering of an integer, as a template literal \<open>`${code}`\<close> renders a number
  that is an integer (below \<open>10^21\<close> in absolute value).
\<close>

definition digitChar :: "nat \<Rightarrow> jschar" where
  "digitChar d = word_of_nat (48 + d)"

function showNat :: "nat \<Rightarrow> jsstring" where
  "showNat n = (if n < 10 then [digitChar n] else showNat (n div 10) @ [digitChar (n mod 10)])"
  by pat_completeness auto
termination
  by (relation "measure id") auto

definition showInt :: "int \<Rightarrow> jsstring" where
  "showInt i = (if i < 0 then js ''-'' @ showNat (nat (- i)) else showNat (nat i))"


section \<open>JavaScript numbers\<close>

text \<open>
  A Number is an IEEE 754 binary64 value: a finite double (\<open>Num x\<close> with \<open>x\<close> the rational
  it denotes, \<open>Num 0\<close> being \<open>+0\<close>), \<open>-0\<close>, an infinity, or \<open>NaN\<close>.
\<close>

datatype jsnumber = Num rat | NegZero | PosInfinity | NegInfinity | NaN

text \<open>Rounding to the nearest integer, a tie going to the even one.\<close>

definition roundHalfEven :: "rat \<Rightarrow> int" where
  "roundHalfEven y =
    (let f = \<lfloor>y\<rfloor>; d = y - of_int f
     in if d < 1 / 2 then f else if 1 / 2 < d then f + 1 else if even f then f else f + 1)"

text \<open>The exponent \<open>e\<close> of a positive rational \<open>m\<close>: \<open>2^e \<le> m < 2^(e+1)\<close>.\<close>

definition binaryExponent :: "rat \<Rightarrow> int" where
  "binaryExponent m = (if 1 \<le> m then bitlen \<lfloor>m\<rfloor> - 1 else - bitlen (\<lceil>1 / m\<rceil> - 1))"

text \<open>
  The magnitude \<open>m \<ge> 0\<close> rounded to 53 significant bits, to a multiple of \<open>2^-1074\<close> in
  the subnormal range, the nearest candidate chosen and a tie going to the even
  significand (\<open>roundTiesToEven\<close>). A result of \<open>2^1024\<close> or more stands for overflow.
\<close>

definition fl :: "rat \<Rightarrow> rat" where
  "fl m =
    (if m = 0 then 0
     else let q = max (binaryExponent m - 52) (- 1074)
          in of_int (roundHalfEven (m / 2 powi q)) * 2 powi q)"

text \<open>The Number for a sign and an exact magnitude: the result of an arithmetic operation.\<close>

definition roundSigned :: "bool \<Rightarrow> rat \<Rightarrow> jsnumber" where
  "roundSigned neg m =
    (let r = fl m
     in if 2 ^ 1024 \<le> r then (if neg then NegInfinity else PosInfinity)
        else if r = 0 then (if neg then NegZero else Num 0)
        else Num (if neg then - r else r))"

text \<open>The Number value of a decimal literal of the source, such as \<open>0.6\<close>.\<close>

definition numberValue :: "rat \<Rightarrow> jsnumber" where
  "numberValue x = roundSigned (x < 0) \<bar>x\<bar>"

fun negative :: "jsnumber \<Rightarrow> bool" where
  "negative (Num x) = (x < 0)"
| "negative NegZero = True"
| "negative PosInfinity = False"
| "negative NegInfinity = True"
| "negative NaN = False"

fun finiteValue :: "jsnumber \<Rightarrow> rat" where
  "finiteValue (Num x) = x"
| "finiteValue n = 0"

definition isInfinite :: "jsnumber \<Rightarrow> bool" where
  "isInfinite n \<longleftrightarrow> n = PosInfinity \<or> n = NegInfinity"

definition isZero :: "jsnumber \<Rightarrow> bool" where
  "isZero n \<longleftrightarrow> n = Num 0 \<or> n = NegZero"

text \<open>
  The operators \<open>*\<close>, \<open>+\<close>, unary \<open>-\<close> and binary \<open>-\<close> on Numbers, and \<open>Math.floor\<close>. The
  sign of a product is the exclusive or of the signs; an exact sum of zero is \<open>+0\<close>,
  unless both operands are \<open>-0\<close>.
\<close>

definition jsMul :: "jsnumber \<Rightarrow> jsnumber \<Rightarrow> jsnumber" where
  "jsMul a b =
    (if a = NaN \<or> b = NaN then NaN
     else if isInfinite a \<or> isInfinite b
     then (if isZero a \<or> isZero b then NaN
           else if negative a \<noteq> negative b then NegInfinity else PosInfinity)
     else roundSigned (negative a \<noteq> negative b) (\<bar>finiteValue a\<bar> * \<bar>finiteValue b\<bar>))"

definition jsAdd :: "jsnumber \<Rightarrow> jsnumber \<Rightarrow> jsnumber" where
  "jsAdd a b =
    (if a = NaN \<or> b = NaN then NaN
     else if isInfinite a then (if isInfinite b \<and> b \<noteq> a then NaN else a)
     else if isInfinite b then b
     else if a = NegZero \<and> b = NegZero then NegZero
     else let s = finiteValue a + finiteValue b
          in if s = 0 then Num 0 else roundSigned (s < 0) \<bar>s\<bar>)"

fun jsNegate :: "jsnumber \<Rightarrow> jsnumber" where
  "jsNegate (Num x) = (if x = 0 then NegZero else Num (- x))"
| "jsNegate NegZero = Num 0"
| "jsNegate PosInfinity = NegInfinity"
| "jsNegate NegInfinity = PosInfinity"
| "jsNegate NaN = NaN"

definition jsSub :: "jsnumber \<Rightarrow> jsnumber \<Rightarrow> jsnumber" where
  "jsSub a b = jsAdd a (jsNegate b)"

fun Math_floor :: "jsnumber \<Rightarrow> jsnumber" where
  "Math_floor (Num x) = Num (of_int \<lfloor>x\<rfloor>)"
| "Math_floor n = n"

text \<open>
  \<open>Number::toString\<close> in radix 10. For a positive double \<open>x\<close> it takes the least number
  \<open>k\<close> of digits for which there are integers \<open>s\<close> and \<open>n\<close> with
  \<open>10^(k-1) \<le> s < 10^k\<close> and \<open>s * 10^(n-k)\<close> rounding to \<open>x\<close>, the \<open>s\<close> nearest to \<open>x\<close> when
  there are two. \<open>decimalExponent x\<close> is the \<open>n\<close> with \<open>10^(n-1) \<le> x < 10^n\<close>; the
  candidates for \<open>k\<close> digits are the two integers around \<open>x / 10^(n-k)\<close>, the upper one
  read as \<open>10^(k-1)\<close> with \<open>n + 1\<close> when it is \<open>10^k\<close>. Seventeen digits identify every
  double.
\<close>

function decimalLength :: "int \<Rightarrow> int" where
  "decimalLength i = (if i < 10 then 1 else decimalLength (i div 10) + 1)"
  by pat_completeness auto
termination
  by (relation "measure nat") auto

function decimalDigits :: "int \<Rightarrow> jsstring" where
  "decimalDigits i =
    (if i < 10 then [digitChar (nat i)] else decimalDigits (i div 10) @ [digitChar (nat (i mod 10))])"
  by pat_completeness auto
termination
  by (relation "measure nat") auto

definition decimalExponent :: "rat \<Rightarrow> int" where
  "decimalExponent x =
    (if 1 \<le> x then decimalLength \<lfloor>x\<rfloor> else 1 - decimalLength (\<lceil>1 / x\<rceil> - 1))"

definition roundTrips :: "rat \<Rightarrow> int \<Rightarrow> int \<Rightarrow> nat \<Rightarrow> bool" where
  "roundTrips x s n k \<longleftrightarrow> fl (of_int s * 10 powi (n - int k)) = x"

definition digitsOfLength :: "rat \<Rightarrow> int \<Rightarrow> nat \<Rightarrow> (int \<times> int) option" where
  "digitsOfLength x n k =
    (let y = x * 10 powi (int k - n);
         lo = \<lfloor>y\<rfloor>;
         hi = \<lceil>y\<rceil>;
         (hs, hn) = (if hi = 10 ^ k then (10 ^ (k - 1), n + 1) else (hi, n));
         okLo = roundTrips x lo n k;
         okHi = roundTrips x hs hn k
     in if okLo \<and> okHi
        then (if y - of_int lo < of_int hi - y then Some (lo, n)
              else if of_int hi - y < y - of_int lo then Some (hs, hn)
              else if even lo then Some (lo, n) else Some (hs, hn))
        else if okLo then Some (lo, n)
        else if okHi then Some (hs, hn)
        else None)"

fun shortestDigits :: "nat \<Rightarrow> rat \<Rightarrow> int \<Rightarrow> nat \<Rightarrow> int \<times> int \<times> nat" where
  "shortestDigits 0 x n k = (\<lfloor>x * 10 powi (int k - n)\<rfloor>, n, k)"
| "shortestDigits (Suc fuel) x n k =
    (case digitsOfLength x n k of
       Some (s, n') \<Rightarrow> (s, n', k)
     | None \<Rightarrow> shortestDigits fuel x n (Suc k))"

definition positiveToString :: "rat \<Rightarrow> jsstring" where
  "positiveToString x =
    (let (s, n, k) = shortestDigits 20 x (decimalExponent x) 1;
         digits = decimalDigits s
     in if int k \<le> n \<and> n \<le> 21 then digits @ replicate (nat (n - int k)) (digitChar 0)
        else if 0 < n \<and> n \<le> 21 then take (nat n) digits @ js ''.'' @ drop (nat n) digits
        else if - 6 < n \<and> n \<le> 0 then js ''0.'' @ replicate (nat (- n)) (digitChar 0) @ digits
        else
          let e = n - 1;
              exponent = (if e < 0 then js ''-'' else js ''+'') @ decimalDigits \<bar>e\<bar>
          in if k = 1 then digits @ js ''e'' @ exponent
             else take 1 digits @ js ''.'' @ drop 1 digits @ js ''e'' @ exponent)"

fun Number_toString :: "jsnumber \<Rightarrow> jsstring" where
  "Number_toString NaN = js ''NaN''"
| "Number_toString NegZero = js ''0''"
| "Number_toString PosInfinity = js ''Infinity''"
| "Number_toString NegInfinity = js ''-Infinity''"
| "Number_toString (Num x) =
    (if x = 0 then js ''0''
     else if x < 0 then js ''-'' @ positiveToString (- x)
     else positiveToString x)"


section \<open>Settings\<close>

datatype SandboxMode = ReadOnly | WorkspaceWrite | DangerFullAccess

datatype ContextMode = NoContext | CurrentNote | CurrentAndLinked

datatype ReasoningEffort = Low | Medium | High

text \<open>The string value of each member of the string-literal union types.\<close>

fun sandboxModeString :: "SandboxMode \<Rightarrow> jsstring" where
  "sandboxModeString ReadOnly = js ''read-only''"
| "sandboxModeString WorkspaceWrite = js ''workspace-write''"
| "sandboxModeString DangerFullAccess = js ''danger-full-access''"

fun reasoningEffortString :: "ReasoningEffort \<Rightarrow> jsstring" where
  "reasoningEffortString Low = js ''low''"
| "reasoningEffortString Medium = js ''medium''"
| "reasoningEffortString High = js ''high''"

text \<open>
  \<open>CodexChatSettings\<close>. The character budget and the budget ratio are Numbers, as the
  budget split multiplies them. The number of memory turns is an integer (it is set
  from an integer slider, and is only used, times two, to count messages).
\<close>

record CodexChatSettings =
  codexBinaryPath :: jsstring
  sandboxMode :: SandboxMode
  contextMode :: ContextMode
  maxContextLength :: jsnumber
  modelOverride :: jsstring
  reasoningEffort :: ReasoningEffort
  memoryTurns :: int
  contextBudgetRatio :: jsnumber

definition DEFAULT_SETTINGS :: CodexChatSettings where
  "DEFAULT_SETTINGS = \<lparr>
     codexBinaryPath = js ''codex'',
     sandboxMode = ReadOnly,
     contextMode = CurrentNote,
     maxContextLength = Num 10000,
     modelOverride = [],
     reasoningEffort = Medium,
     memoryTurns = 10,
     contextBudgetRatio = numberValue (6 / 10) \<rparr>"


section \<open>CodexService.buildArgs\<close>

text \<open>
  The argument array is built by successive \<open>push\<close> calls; each \<open>let\<close> below is one
  statement of the source. A string is truthy when it is not empty.
\<close>

definition buildArgs :: "CodexChatSettings \<Rightarrow> jsstring \<Rightarrow> jsstring list" where
  "buildArgs settings prompt =
    (let args = [js ''exec'', js ''--json''];
         args = (if sandboxModeString (sandboxMode settings) = js ''danger-full-access''
                 then args @ [js ''--sandbox'', js ''danger-full-access'']
                 else if sandboxModeString (sandboxMode settings) = js ''workspace-write''
                 then args @ [js ''--full-auto'']
                 else args);
         args = (if modelOverride settings \<noteq> []
                 then args @ [js ''--model'', modelOverride settings]
                 else args);
         args = (if reasoningEffortString (reasoningEffort settings) \<noteq> js ''medium''
                 then args @ [js ''--reasoning-effort'', reasoningEffortString (reasoningEffort settings)]
                 else args);
         args = args @ [js ''--skip-git-repo-check''];
         args = args @ [prompt]
     in args)"


section \<open>VaultContext.formatNoteContext\<close>

definition formatNoteContext :: "jsstring \<Rightarrow> jsstring \<Rightarrow> jsstring \<Rightarrow> int \<Rightarrow> jsstring" where
  "formatNoteContext title path content maxLength =
    (let header = js ''Note: '' @ title @ js '' ('' @ path @ js '')'' @ [LF];
         available = maxLength - int (length header) - 10
     in if available \<le> 0 then []
        else
          let trimmedContent =
                (if int (length content) > available
                 then slice0 content available @ [LF] @ js ''...(truncated)''
                 else content)
          in header @ trimmedContent @ [LF])"


section \<open>The budget split of CodexChatView.handleSend\<close>

text \<open>
  \<open>vaultBudget = Math.floor(totalBudget * ratio)\<close> and
  \<open>memoryBudget = totalBudget - vaultBudget\<close>, in the arithmetic of Numbers: the product
  and the difference are rounded to the nearest double.
\<close>

definition vaultBudget :: "jsnumber \<Rightarrow> jsnumber \<Rightarrow> jsnumber" where
  "vaultBudget totalBudget ratio = Math_floor (jsMul totalBudget ratio)"

definition memoryBudget :: "jsnumber \<Rightarrow> jsnumber \<Rightarrow> jsnumber" where
  "memoryBudget totalBudget ratio = jsSub totalBudget (vaultBudget totalBudget ratio)"


section \<open>CodexChatView.buildConversationMemory\<close>

datatype Role = User | Assistant

record ChatMessage =
  role :: Role
  content :: jsstring
  timestamp :: int

text \<open>
  \<open>xs.slice(start)\<close> for an integer \<open>start\<close>: a negative \<open>start\<close> counts from the end
  (and stops at the beginning), a non-negative one from the beginning; \<open>-0\<close> is \<open>0\<close>.
\<close>

definition sliceFrom :: "'a list \<Rightarrow> int \<Rightarrow> 'a list" where
  "sliceFrom xs start =
    (let len = int (length xs);
         k = (if start < 0 then max (len + start) 0 else min start len)
     in drop (nat k) xs)"

text \<open>
  The body of the loop up to the rendered line. \<open>Math.floor(n / 2)\<close> on an integer
  \<open>n\<close> is \<open>n div 2\<close> (both round towards minus infinity).
\<close>

definition memoryLine :: "int \<Rightarrow> int \<Rightarrow> ChatMessage \<Rightarrow> jsstring" where
  "memoryLine maxChars totalLength msg =
    (let roleName = (if role msg = User then js ''User'' else js ''Assistant'');
         perMsgLimit = max 500 ((maxChars - totalLength) div 2);
         shown = (if int (length (content msg)) > perMsgLimit
                  then slice0 (content msg) perMsgLimit @ js ''...(truncated)''
                  else content msg)
     in roleName @ js '': '' @ shown @ [LF])"

text \<open>The loop over \<open>recentMessages\<close>; the state is \<open>(totalLength, parts)\<close>.\<close>

fun memoryLoop :: "int \<Rightarrow> ChatMessage list \<Rightarrow> int \<times> jsstring list \<Rightarrow> int \<times> jsstring list" where
  "memoryLoop maxChars [] (totalLength, parts) = (totalLength, parts)"
| "memoryLoop maxChars (msg # rest) (totalLength, parts) =
    (let line = memoryLine maxChars totalLength msg
     in if totalLength + int (length line) > maxChars then (totalLength, parts)
        else memoryLoop maxChars rest (totalLength + int (length line), parts @ [line]))"

definition buildConversationMemory :: "ChatMessage list \<Rightarrow> CodexChatSettings \<Rightarrow> int \<Rightarrow> jsstring" where
  "buildConversationMemory messages settings maxChars =
    (if length messages = 0 then []
     else
       let recentMessages = sliceFrom messages (- (memoryTurns settings * 2))
       in if length recentMessages = 0 then []
          else
            let header = js ''Previous conversation:'' @ [LF];
                (totalLength, parts) = memoryLoop maxChars recentMessages (int (length header), [header]);
                parts = parts @ [[LF]]
            in concat parts)"


section \<open>JSON.parse\<close>

text \<open>
  The values that \<open>JSON.parse\<close> returns. An object is the list of its members in the
  order of the text. The interfaces \<open>CodexThreadEvent\<close>, \<open>CodexItem\<close> and \<open>CodexUsage\<close>
  exist at compile time only: the cast \<open>as CodexThreadEvent\<close> checks nothing, and the
  handlers read whatever value was decoded.

  The grammar is that of ECMA-404: a value between optional white space (space, tab,
  LF, CR), and nothing else. A number literal gives the double nearest to the value it
  denotes, \<open>-0\<close> for a negative literal that rounds to zero, an infinity on overflow.
  The parsers of values, array elements and object members take fuel: a value costs
  one unit, a nested array or object two (and has two brackets), a further element or
  member one (and has a comma), so the length of the input plus one is enough for
  every input; this is proved below.
\<close>

datatype json =
    JNull
  | JBool bool
  | JNum jsnumber
  | JStr jsstring
  | JArr "json list"
  | JObj "(jsstring \<times> json) list"


definition isJsonWs :: "jschar \<Rightarrow> bool" where
  "isJsonWs c \<longleftrightarrow> c = 0x20 \<or> c = 0x09 \<or> c = 0x0A \<or> c = 0x0D"

definition skipWs :: "jsstring \<Rightarrow> jsstring" where
  "skipWs s = dropWhile isJsonWs s"

definition isDigit :: "jschar \<Rightarrow> bool" where
  "isDigit c \<longleftrightarrow> 0x30 \<le> c \<and> c \<le> 0x39"

definition hexDigit :: "jschar \<Rightarrow> nat option" where
  "hexDigit c =
    (if 0x30 \<le> c \<and> c \<le> 0x39 then Some (unat c - 0x30)
     else if 0x41 \<le> c \<and> c \<le> 0x46 then Some (unat c - 0x41 + 10)
     else if 0x61 \<le> c \<and> c \<le> 0x66 then Some (unat c - 0x61 + 10)
     else None)"

definition hex4 :: "jschar \<Rightarrow> jschar \<Rightarrow> jschar \<Rightarrow> jschar \<Rightarrow> jschar option" where
  "hex4 a b c d =
    (case (hexDigit a, hexDigit b, hexDigit c, hexDigit d) of
       (Some w, Some x, Some y, Some z) \<Rightarrow> Some (word_of_nat (((w * 16 + x) * 16 + y) * 16 + z))
     | _ \<Rightarrow> None)"

definition escapeChar :: "jschar \<Rightarrow> jschar option" where
  "escapeChar e =
    (if e = 0x22 then Some 0x22
     else if e = 0x5C then Some 0x5C
     else if e = 0x2F then Some 0x2F
     else if e = 0x62 then Some 0x08
     else if e = 0x66 then Some 0x0C
     else if e = 0x6E then Some 0x0A
     else if e = 0x72 then Some 0x0D
     else if e = 0x74 then Some 0x09
     else None)"

definition consTo :: "'a \<Rightarrow> ('a list \<times> 'b) option \<Rightarrow> ('a list \<times> 'b) option" where
  "consTo x r = (case r of None \<Rightarrow> None | Some (xs, rest) \<Rightarrow> Some (x # xs, rest))"

fun parseChars :: "jsstring \<Rightarrow> (jsstring \<times> jsstring) option" where
  "parseChars [] = None"
| "parseChars (c # cs) =
    (if c = 0x22 then Some ([], cs)
     else if c = 0x5C then
       (case cs of
          [] \<Rightarrow> None
        | e # cs1 \<Rightarrow>
            if e = 0x75 then
              (case cs1 of
                 h1 # h2 # h3 # h4 # cs2 \<Rightarrow>
                   (case hex4 h1 h2 h3 h4 of
                      None \<Rightarrow> None
                    | Some u \<Rightarrow> consTo u (parseChars cs2))
               | _ \<Rightarrow> None)
            else
              (case escapeChar e of
                 None \<Rightarrow> None
               | Some x \<Rightarrow> consTo x (parseChars cs1)))
     else if c < 0x20 then None
     else consTo c (parseChars cs))"

definition digitsValue :: "jsstring \<Rightarrow> int" where
  "digitsValue ds = foldl (\<lambda>a c. 10 * a + (uint c - 0x30)) 0 ds"

text \<open>
  A number literal: an optional minus sign, the integer part (a single \<open>0\<close>, or digits
  that start with another digit), an optional fraction (a point and digits) and an
  optional exponent (\<open>e\<close> or \<open>E\<close>, an optional sign and digits). Each part returns the
  rest of the input.
\<close>

definition numSign :: "jsstring \<Rightarrow> bool \<times> jsstring" where
  "numSign s = (case s of [] \<Rightarrow> (False, s) | c # r \<Rightarrow> if c = 0x2D then (True, r) else (False, s))"

definition numInt :: "jsstring \<Rightarrow> jsstring" where
  "numInt s = (case s of [] \<Rightarrow> [] | c # r \<Rightarrow> if c = 0x30 then [c] else takeWhile isDigit s)"

definition numFrac :: "jsstring \<Rightarrow> jsstring option \<times> jsstring" where
  "numFrac s =
    (case s of
       [] \<Rightarrow> (None, s)
     | c # r \<Rightarrow> if c = 0x2E then (Some (takeWhile isDigit r), dropWhile isDigit r) else (None, s))"

definition expSign :: "jsstring \<Rightarrow> bool \<times> jsstring" where
  "expSign s =
    (case s of
       [] \<Rightarrow> (False, s)
     | c # r \<Rightarrow> if c = 0x2D then (True, r) else if c = 0x2B then (False, r) else (False, s))"

definition numExp :: "jsstring \<Rightarrow> (bool \<times> jsstring) option \<times> jsstring" where
  "numExp s =
    (case s of
       [] \<Rightarrow> (None, s)
     | c # r \<Rightarrow>
         if c = 0x65 \<or> c = 0x45
         then (Some (fst (expSign r), takeWhile isDigit (snd (expSign r))),
               dropWhile isDigit (snd (expSign r)))
         else (None, s))"

definition parseNumber :: "jsstring \<Rightarrow> (jsnumber \<times> jsstring) option" where
  "parseNumber s =
    (let (neg, s1) = numSign s;
         ip = numInt s1;
         (fp, s3) = numFrac (drop (length ip) s1);
         (ex, s4) = numExp s3
     in if ip = [] \<or> fp = Some [] \<or> (case ex of Some (_, ds) \<Rightarrow> ds = [] | None \<Rightarrow> False)
        then None
        else
          let fd = (case fp of Some ds \<Rightarrow> ds | None \<Rightarrow> []);
              mant = rat_of_int (digitsValue (ip @ fd)) / 10 ^ length fd;
              scaled = (case ex of
                          None \<Rightarrow> mant
                        | Some (eneg, ds) \<Rightarrow>
                            if eneg then mant / 10 ^ nat (digitsValue ds)
                            else mant * 10 ^ nat (digitsValue ds))
          in Some (roundSigned neg scaled, s4))"

definition expect :: "jschar \<Rightarrow> jsstring \<Rightarrow> jsstring option" where
  "expect x s = (case skipWs s of [] \<Rightarrow> None | c # r \<Rightarrow> if c = x then Some r else None)"

definition literal :: "jsstring \<Rightarrow> jsstring \<Rightarrow> jsstring option" where
  "literal w s = (if take (length w) s = w then Some (drop (length w) s) else None)"

fun parseValue :: "nat \<Rightarrow> jsstring \<Rightarrow> (json \<times> jsstring) option"
  and parseElements :: "nat \<Rightarrow> jsstring \<Rightarrow> (json list \<times> jsstring) option"
  and parseMembers :: "nat \<Rightarrow> jsstring \<Rightarrow> ((jsstring \<times> json) list \<times> jsstring) option" where
  "parseValue 0 s = None"
| "parseValue (Suc n) s =
    (case skipWs s of
       [] \<Rightarrow> None
     | c # cs \<Rightarrow>
         if c = 0x7B then
           (case expect 0x7D cs of
              Some r \<Rightarrow> Some (JObj [], r)
            | None \<Rightarrow> (case parseMembers n cs of None \<Rightarrow> None | Some (ms, r) \<Rightarrow> Some (JObj ms, r)))
         else if c = 0x5B then
           (case expect 0x5D cs of
              Some r \<Rightarrow> Some (JArr [], r)
            | None \<Rightarrow> (case parseElements n cs of None \<Rightarrow> None | Some (vs, r) \<Rightarrow> Some (JArr vs, r)))
         else if c = 0x22 then
           (case parseChars cs of None \<Rightarrow> None | Some (str, r) \<Rightarrow> Some (JStr str, r))
         else if c = 0x74 then
           (case literal (js ''true'') (c # cs) of None \<Rightarrow> None | Some r \<Rightarrow> Some (JBool True, r))
         else if c = 0x66 then
           (case literal (js ''false'') (c # cs) of None \<Rightarrow> None | Some r \<Rightarrow> Some (JBool False, r))
         else if c = 0x6E then
           (case literal (js ''null'') (c # cs) of None \<Rightarrow> None | Some r \<Rightarrow> Some (JNull, r))
         else
           (case parseNumber (c # cs) of None \<Rightarrow> None | Some (x, r) \<Rightarrow> Some (JNum x, r)))"
| "parseElements 0 s = None"
| "parseElements (Suc n) s =
    (case parseValue n s of
       None \<Rightarrow> None
     | Some (v, r) \<Rightarrow>
         (case expect 0x2C r of
            Some r1 \<Rightarrow> consTo v (parseElements n r1)
          | None \<Rightarrow> (case expect 0x5D r of Some r1 \<Rightarrow> Some ([v], r1) | None \<Rightarrow> None)))"
| "parseMembers 0 s = None"
| "parseMembers (Suc n) s =
    (case expect 0x22 s of
       None \<Rightarrow> None
     | Some cs \<Rightarrow>
         (case parseChars cs of
            None \<Rightarrow> None
          | Some (k, r) \<Rightarrow>
              (case expect 0x3A r of
                 None \<Rightarrow> None
               | Some r1 \<Rightarrow>
                   (case parseValue n r1 of
                      None \<Rightarrow> None
                    | Some (v, r2) \<Rightarrow>
                        (case expect 0x2C r2 of
                           Some r3 \<Rightarrow> consTo (k, v) (parseMembers n r3)
                         | None \<Rightarrow>
                             (case expect 0x7D r2 of
                                Some r3 \<Rightarrow> Some ([(k, v)], r3)
                              | None \<Rightarrow> None))))))"

text \<open>\<open>JSON.parse(s)\<close>; \<open>None\<close> when it throws a \<open>SyntaxError\<close>.\<close>

definition JSON_parse :: "jsstring \<Rightarrow> json option" where
  "JSON_parse s =
    (case parseValue (Suc (length s)) s of
       None \<Rightarrow> None
     | Some (v, r) \<Rightarrow> if skipWs r = [] then Some v else None)"


section \<open>JavaScript values\<close>

text \<open>
  The values that the handlers hold are strings and decoded documents, so \<open>json\<close> is
  the type of values here, with \<open>JStr\<close> for a string; \<open>undefined\<close> is the \<open>None\<close> of an
  option. \<open>truthy\<close> is the conversion to a boolean that \<open>if\<close>, \<open>&&\<close>, \<open>||\<close> and \<open>!\<close> apply.
\<close>

fun truthy :: "json \<Rightarrow> bool" where
  "truthy JNull = False"
| "truthy (JBool b) = b"
| "truthy (JNum n) = (n \<noteq> Num 0 \<and> n \<noteq> NegZero \<and> n \<noteq> NaN)"
| "truthy (JStr s) = (s \<noteq> [])"
| "truthy (JArr vs) = True"
| "truthy (JObj ms) = True"

text \<open>
  Property access \<open>v.k\<close> on a value other than \<open>null\<close>, for the names read in the
  handlers (\<open>type\<close>, \<open>item\<close>, \<open>text\<close>, \<open>usage\<close>, \<open>error\<close>, \<open>message\<close>): an object has the
  properties of its members (the last of two members with one name wins), and no
  other value has a property of one of these names. On \<open>null\<close> the access throws a
  \<open>TypeError\<close>; the handlers below treat that case before they use \<open>getProp\<close>.
\<close>

definition getProp :: "json \<Rightarrow> string \<Rightarrow> json option" where
  "getProp v k = (case v of JObj ms \<Rightarrow> map_of (rev ms) (js k) | _ \<Rightarrow> None)"

text \<open>Optional chaining \<open>v?.k\<close>: \<open>undefined\<close> when \<open>v\<close> is \<open>undefined\<close> or \<open>null\<close>.\<close>

definition optChain :: "json option \<Rightarrow> string \<Rightarrow> json option" where
  "optChain v k = (case v of None \<Rightarrow> None | Some x \<Rightarrow> if x = JNull then None else getProp x k)"

text \<open>Nullish coalescing \<open>v ?? d\<close>: \<open>d\<close> when \<open>v\<close> is \<open>undefined\<close> or \<open>null\<close>.\<close>

definition coalesce :: "json option \<Rightarrow> json \<Rightarrow> json" where
  "coalesce v d = (case v of None \<Rightarrow> d | Some x \<Rightarrow> if x = JNull then d else x)"

text \<open>
  The conversion to a string that \<open>+\<close> applies to its left operand when the right one
  is a string. A number is rendered by \<open>Number::toString\<close>. An array is joined with
  commas, \<open>null\<close> elements giving the empty string. An object gives
  \<open>[object Object]\<close> through the inherited \<open>toString\<close>; when it has a member named
  \<open>toString\<close>, which is no function, the conversion finds no method that returns a
  primitive and throws a \<open>TypeError\<close>: the result is \<open>None\<close>.
\<close>

fun ToString :: "json \<Rightarrow> jsstring option"
  and joinElements :: "json list \<Rightarrow> jsstring option" where
  "ToString JNull = Some (js ''null'')"
| "ToString (JBool b) = Some (if b then js ''true'' else js ''false'')"
| "ToString (JNum n) = Some (Number_toString n)"
| "ToString (JStr s) = Some s"
| "ToString (JArr vs) = joinElements vs"
| "ToString (JObj ms) =
    (if js ''toString'' \<in> set (map fst ms) then None else Some (js ''[object Object]''))"
| "joinElements [] = Some []"
| "joinElements (v # vs) =
    (case (if v = JNull then Some [] else ToString v) of
       None \<Rightarrow> None
     | Some s \<Rightarrow>
         if vs = [] then Some s
         else (case joinElements vs of None \<Rightarrow> None | Some r \<Rightarrow> Some (s @ js '','' @ r)))"


section \<open>TextDecoder\<close>

text \<open>
  \<open>new TextDecoder().decode(data)\<close>: the UTF-8 decoder of the Encoding Standard, run on
  one chunk from its initial state to the end of the chunk. The arguments of
  \<open>utf8Decode\<close> are the number of continuation bytes still needed, the code point so
  far and the bounds of the next continuation byte. An ill-formed sequence, and a
  sequence cut off by the end of the chunk, give U+FFFD; a byte that cannot continue a
  sequence is read again as the start of the next one.
\<close>

fun utf8Decode :: "nat \<Rightarrow> nat \<Rightarrow> 8 word \<Rightarrow> 8 word \<Rightarrow> 8 word list \<Rightarrow> nat list" where
  "utf8Decode 0 cp lower upper [] = []"
| "utf8Decode (Suc needed) cp lower upper [] = [0xFFFD]"
| "utf8Decode 0 cp lower upper (b # bs) =
    (if b \<le> 0x7F then unat b # utf8Decode 0 0 0x80 0xBF bs
     else if 0xC2 \<le> b \<and> b \<le> 0xDF then utf8Decode 1 (unat (b AND 0x1F)) 0x80 0xBF bs
     else if 0xE0 \<le> b \<and> b \<le> 0xEF then
       utf8Decode 2 (unat (b AND 0xF))
         (if b = 0xE0 then 0xA0 else 0x80) (if b = 0xED then 0x9F else 0xBF) bs
     else if 0xF0 \<le> b \<and> b \<le> 0xF4 then
       utf8Decode 3 (unat (b AND 0x7))
         (if b = 0xF0 then 0x90 else 0x80) (if b = 0xF4 then 0x8F else 0xBF) bs
     else 0xFFFD # utf8Decode 0 0 0x80 0xBF bs)"
| "utf8Decode (Suc needed) cp lower upper (b # bs) =
    (if b < lower \<or> upper < b then 0xFFFD # utf8Decode 0 0 0x80 0xBF (b # bs)
     else if needed = 0 then (cp * 64 + unat (b AND 0x3F)) # utf8Decode 0 0 0x80 0xBF bs
     else utf8Decode needed (cp * 64 + unat (b AND 0x3F)) 0x80 0xBF bs)"

text \<open>A code point as UTF-16 code units: itself, or a surrogate pair above U+FFFF.\<close>

definition utf16 :: "nat \<Rightarrow> jsstring" where
  "utf16 cp =
    (if cp < 0x10000 then [word_of_nat cp]
     else [word_of_nat (0xD800 + (cp - 0x10000) div 0x400),
           word_of_nat (0xDC00 + (cp - 0x10000) mod 0x400)])"

text \<open>The decoder drops one leading byte order mark (\<open>ignoreBOM\<close> is false by default).\<close>

definition TextDecoder_decode :: "8 word list \<Rightarrow> jsstring" where
  "TextDecoder_decode data =
    (let cps = utf8Decode 0 0 0x80 0xBF data;
         cps = (case cps of [] \<Rightarrow> [] | cp # rest \<Rightarrow> if cp = 0xFEFF then rest else cps)
     in concat (map utf16 cps))"

text \<open>The bytes of an ASCII literal.\<close>

definition ascii :: "string \<Rightarrow> 8 word list" where
  "ascii s = map (\<lambda>c. word_of_nat (of_char c)) s"


section \<open>The Codex event stream\<close>

text \<open>
  The callbacks of one \<open>sendMessage\<close> call. The model records every invocation, in
  order, as a value of this type, with the values passed.
\<close>

datatype Callback =
    OnEvent json
  | OnTextChunk json
  | OnComplete json "json option"
  | OnError json

text \<open>
  How the promise returned by \<open>sendMessage\<close> settles; a rejection carries the message
  of its \<open>Error\<close>. It stays pending when the close handler ends with an exception
  before it settles the promise.
\<close>

datatype Outcome = Resolved | Rejected jsstring | Pending

text \<open>How the body of a handler ends: it returns, or a \<open>TypeError\<close> leaves it.\<close>

datatype Exit = Normal | TypeError

text \<open>
  The variables the handlers of one session close over. \<open>fullText\<close> starts as the
  empty string and is assigned the \<open>text\<close> of decoded records, whatever value that is.
\<close>

record Session =
  fullText :: json
  lastUsage :: "json option"
  stderrBuffer :: jsstring
  stdoutBuffer :: jsstring


section \<open>CodexService.sendMessage\<close>

text \<open>
  \<open>JSON.parse\<close> is the parameter \<open>parse\<close> of the handlers: \<open>None\<close> when it throws, the
  decoded value otherwise.

  \<open>agentMessageText\<close> is the test \<open>event.item?.type === "agent_message" && event.item.text\<close>
  on an \<open>event\<close> that is not \<open>null\<close>, together with the text it finds. Where the first
  operand holds, \<open>event.item\<close> is an object, so that \<open>event.item.text\<close> is the same as
  \<open>event.item?.text\<close> and does not throw.
\<close>

definition agentMessageText :: "json \<Rightarrow> json option" where
  "agentMessageText event =
    (if optChain (getProp event ''item'') ''type'' = Some (JStr (js ''agent_message''))
     then (case optChain (getProp event ''item'') ''text'' of
             None \<Rightarrow> None
           | Some t \<Rightarrow> if truthy t then Some t else None)
     else None)"

text \<open>\<open>event.error?.message ?? event.item?.text ?? "Unknown error"\<close>.\<close>

definition errorMessage :: "json \<Rightarrow> json" where
  "errorMessage event =
    coalesce (optChain (getProp event ''error'') ''message'')
      (coalesce (optChain (getProp event ''item'') ''text'') (JStr (js ''Unknown error'')))"

text \<open>
  The body of the loop over the complete lines of a chunk, with the way it ends. Two
  statements can throw. \<open>fullText += trimmed + "\n"\<close> throws when \<open>fullText\<close> has no
  conversion to a string, before \<open>onTextChunk\<close> is called. \<open>event.item\<close> throws when the
  line decodes to \<open>null\<close>, after \<open>onEvent\<close> was called. Both are outside the \<open>try\<close>.
\<close>

definition processLine ::
  "(jsstring \<Rightarrow> json option) \<Rightarrow> Session \<Rightarrow> jsstring \<Rightarrow> Session \<times> Callback list \<times> Exit" where
  "processLine parse st line =
    (let trimmed = trim line
     in if trimmed = [] then (st, [], Normal)
        else
          case parse trimmed of
            None \<Rightarrow>
              (case ToString (fullText st) of
                 None \<Rightarrow> (st, [], TypeError)
               | Some s \<Rightarrow>
                   (st\<lparr>fullText := JStr (s @ trimmed @ [LF])\<rparr>,
                    [OnTextChunk (JStr (trimmed @ [LF]))], Normal))
          | Some event \<Rightarrow>
              let calls = [OnEvent event]
              in if event = JNull then (st, calls, TypeError)
                 else
                   let (st, calls) =
                         (case agentMessageText event of
                            Some t \<Rightarrow>
                              if getProp event ''type'' = Some (JStr (js ''item.completed''))
                              then (st\<lparr>fullText := t\<rparr>, calls @ [OnTextChunk t])
                              else (st, calls)
                          | None \<Rightarrow> (st, calls));
                       st = (case getProp event ''usage'' of
                               None \<Rightarrow> st
                             | Some u \<Rightarrow>
                                 if getProp event ''type'' = Some (JStr (js ''turn.completed''))
                                    \<and> truthy u
                                 then st\<lparr>lastUsage := Some u\<rparr>
                                 else st);
                       calls = (if getProp event ''type'' = Some (JStr (js ''turn.failed''))
                                   \<or> getProp event ''type'' = Some (JStr (js ''error''))
                                then calls @ [OnError (errorMessage event)]
                                else calls)
                   in (st, calls, Normal))"

text \<open>The loop: an exception ends it, and the lines that follow are not read.\<close>

fun processLines ::
  "(jsstring \<Rightarrow> json option) \<Rightarrow> Session \<Rightarrow> jsstring list \<Rightarrow> Session \<times> Callback list \<times> Exit" where
  "processLines parse st [] = (st, [], Normal)"
| "processLines parse st (line # lines) =
    (let (st, calls, exit) = processLine parse st line
     in if exit = TypeError then (st, calls, TypeError)
        else
          let (st, calls', exit) = processLines parse st lines
          in (st, calls @ calls', exit))"

text \<open>
  The \<open>data\<close> handler of stdout, from the decoded text on: the text is appended to
  the buffer, the buffer split at \<open>"\n"\<close>, the last piece kept as the new buffer
  (\<open>lines.pop() ?? ""\<close>) and the other pieces processed in order.
\<close>

definition stdoutText ::
  "(jsstring \<Rightarrow> json option) \<Rightarrow> Session \<Rightarrow> jsstring \<Rightarrow> Session \<times> Callback list \<times> Exit" where
  "stdoutText parse st text =
    (let buffer = stdoutBuffer st @ text;
         lines = split_nl buffer;
         st = st\<lparr>stdoutBuffer := (if lines = [] then [] else last lines)\<rparr>;
         lines = butlast lines
     in processLines parse st lines)"

definition stdoutData ::
  "(jsstring \<Rightarrow> json option) \<Rightarrow> Session \<Rightarrow> 8 word list \<Rightarrow> Session \<times> Callback list \<times> Exit" where
  "stdoutData parse st data = stdoutText parse st (TextDecoder_decode data)"

definition stderrData :: "Session \<Rightarrow> 8 word list \<Rightarrow> Session" where
  "stderrData st data = st\<lparr>stderrBuffer := stderrBuffer st @ TextDecoder_decode data\<rparr>"

text \<open>
  The first part of the \<open>close\<close> handler: what is left in the stdout buffer. An
  exception in the \<open>try\<close> block, from \<open>JSON.parse\<close> or from \<open>event.item\<close> on \<open>null\<close> after
  \<open>onEvent\<close> was called, is caught by the \<open>catch\<close> branch; the \<open>+=\<close> of that branch can
  throw in its turn, and nothing catches that.
\<close>

definition catchBranch :: "Session \<Rightarrow> Callback list \<Rightarrow> Session \<times> Callback list \<times> Exit" where
  "catchBranch st calls =
    (case ToString (fullText st) of
       None \<Rightarrow> (st, calls, TypeError)
     | Some s \<Rightarrow>
         (st\<lparr>fullText := JStr (s @ trim (stdoutBuffer st))\<rparr>,
          calls @ [OnTextChunk (JStr (trim (stdoutBuffer st)))], Normal))"

definition finalPass ::
  "(jsstring \<Rightarrow> json option) \<Rightarrow> Session \<Rightarrow> Session \<times> Callback list \<times> Exit" where
  "finalPass parse st =
    (if trim (stdoutBuffer st) \<noteq> []
     then (case parse (trim (stdoutBuffer st)) of
             Some event \<Rightarrow>
               if event = JNull then catchBranch st [OnEvent event]
               else
                 (case agentMessageText event of
                    Some t \<Rightarrow> (st\<lparr>fullText := t\<rparr>, [OnEvent event], Normal)
                  | None \<Rightarrow> (st, [OnEvent event], Normal))
           | None \<Rightarrow> catchBranch st [])
     else (st, [], Normal))"

text \<open>
  The \<open>close\<close> handler. \<open>code\<close> is the exit status, \<open>None\<close> for \<open>null\<close> (the process
  was killed). When the first part throws, the handler ends there.
\<close>

definition closeHandler ::
  "(jsstring \<Rightarrow> json option) \<Rightarrow> Session \<Rightarrow> int option
     \<Rightarrow> Session \<times> Callback list \<times> Outcome" where
  "closeHandler parse st code =
    (let (st, calls, exit) = finalPass parse st
     in if exit = TypeError then (st, calls, Pending)
        else if code = Some 0 \<or> truthy (fullText st)
        then (st, calls @ [OnComplete (fullText st) (lastUsage st)], Resolved)
        else
          (case code of
             Some c \<Rightarrow>
               if c \<noteq> 0
               then
                 (if trim (stderrBuffer st) \<noteq> [] \<and> \<not> truthy (fullText st)
                  then (st, calls @ [OnError (JStr (js ''Codex exited with code '' @ showInt c
                                              @ js ''. '' @ take 500 (stderrBuffer st)))],
                        Rejected (js ''Codex exited with code '' @ showInt c))
                  else (st, calls @ [OnError (JStr (js ''Codex exited with code '' @ showInt c))],
                        Rejected (js ''Codex exited with code '' @ showInt c)))
               else (st, calls @ [OnComplete (fullText st) (lastUsage st)], Resolved)
           | None \<Rightarrow> (st, calls @ [OnComplete (fullText st) (lastUsage st)], Resolved)))"

text \<open>
  One session whose process has spawned: the \<open>data\<close> events of stdout and stderr in
  their order of arrival, then the \<open>close\<close> event. An exception that leaves a \<open>data\<close>
  handler is uncaught: the runtime reports it, the listeners stay in place and the
  next event is handled from the state the handler left. \<open>runEvents\<close> gives the state,
  the callback invocations, and \<open>TypeError\<close> when some \<open>data\<close> handler threw. The result
  of \<open>sendMessage\<close> is the sequence of callback invocations and the way the promise
  settles.
\<close>

datatype ProcessEvent = StdoutData "8 word list" | StderrData "8 word list"

fun runEvents ::
  "(jsstring \<Rightarrow> json option) \<Rightarrow> Session \<Rightarrow> ProcessEvent list \<Rightarrow> Session \<times> Callback list \<times> Exit" where
  "runEvents parse st [] = (st, [], Normal)"
| "runEvents parse st (StdoutData data # events) =
    (let (st, calls, exit) = stdoutData parse st data;
         (st, calls', exit') = runEvents parse st events
     in (st, calls @ calls', if exit = TypeError then TypeError else exit'))"
| "runEvents parse st (StderrData data # events) = runEvents parse (stderrData st data) events"

definition newSession :: Session where
  "newSession = \<lparr>fullText = JStr [], lastUsage = None, stderrBuffer = [], stdoutBuffer = []\<rparr>"

definition sendMessage ::
  "(jsstring \<Rightarrow> json option) \<Rightarrow> ProcessEvent list \<Rightarrow> int option
     \<Rightarrow> Callback list \<times> Outcome" where
  "sendMessage parse events code =
    (let (st, calls, exit) = runEvents parse newSession events;
         (st, calls', outcome) = closeHandler parse st code
     in (calls @ calls', outcome))"


section \<open>Notions used in the statements\<close>

text \<open>
  The completion callbacks are \<open>onComplete\<close> and \<open>onError\<close>. A line holds an error
  record when it is not blank and decodes to a value whose \<open>type\<close> is \<open>turn.failed\<close> or
  \<open>error\<close>. The complete lines of a text are the pieces that a line terminator ends.
\<close>

fun isCompletion :: "Callback \<Rightarrow> bool" where
  "isCompletion (OnComplete t u) = True"
| "isCompletion (OnError m) = True"
| "isCompletion (OnEvent e) = False"
| "isCompletion (OnTextChunk t) = False"

definition errorRecordLine :: "(jsstring \<Rightarrow> json option) \<Rightarrow> jsstring \<Rightarrow> bool" where
  "errorRecordLine parse line =
    (case parse (trim line) of
       None \<Rightarrow> False
     | Some event \<Rightarrow>
         trim line \<noteq> []
         \<and> (getProp event ''type'' = Some (JStr (js ''turn.failed''))
              \<or> getProp event ''type'' = Some (JStr (js ''error''))))"

definition completeLines :: "jsstring \<Rightarrow> jsstring list" where
  "completeLines text = butlast (split_nl text)"

text \<open>All the decoded text of stdout, and of stderr, that a session receives.\<close>

fun stdoutTextOf :: "ProcessEvent list \<Rightarrow> jsstring" where
  "stdoutTextOf [] = []"
| "stdoutTextOf (StdoutData data # events) = TextDecoder_decode data @ stdoutTextOf events"
| "stdoutTextOf (StderrData data # events) = stdoutTextOf events"

fun stderrTextOf :: "ProcessEvent list \<Rightarrow> jsstring" where
  "stderrTextOf [] = []"
| "stderrTextOf (StdoutData data # events) = stderrTextOf events"
| "stderrTextOf (StderrData data # events) = TextDecoder_decode data @ stderrTextOf events"


section \<open>Example records\<close>

text \<open>
  Lines of the Codex event stream used in the examples below, and the values they
  decode to: an assistant message that is complete, and a failed turn.
\<close>

definition agentMessage :: "jsstring \<Rightarrow> json" where
  "agentMessage t =
     JObj [(js ''type'', JStr (js ''item.completed'')),
           (js ''item'', JObj [(js ''type'', JStr (js ''agent_message'')), (js ''text'', JStr t)])]"

definition agentMessageLine :: string where
  "agentMessageLine =
     ''{\"type\":\"item.completed\",\"item\":{\"type\":\"agent_message\",\"text\":\"Hi there\"}}''"

definition turnFailedEvent :: json where
  "turnFailedEvent =
     JObj [(js ''type'', JStr (js ''turn.failed'')),
           (js ''error'', JObj [(js ''message'', JStr (js ''boom''))])]"

definition turnFailedLine :: string where
  "turnFailedLine = ''{\"type\":\"turn.failed\",\"error\":{\"message\":\"boom\"}}''"

text \<open>
  The two parts of a line whose message text is \<open>caf\<close> followed by one more character,
  to be put between them.
\<close>

definition cafePrefix :: string where
  "cafePrefix = ''{\"type\":\"item.completed\",\"item\":{\"type\":\"agent_message\",\"text\":\"caf''"

definition cafeSuffix :: string where
  "cafeSuffix = ''\"}}''"


section \<open>Basic facts about strings\<close>

lemma length_js [simp]: "length (js s) = length s"
  by (simp add: js_def)

lemma js_Nil [simp]: "js [] = []"
  by (simp add: js_def)

lemma js_eq_Nil [simp]: "js s = [] \<longleftrightarrow> s = []"
  by (simp add: js_def)

lemma js_append: "js (a @ b) = js a @ js b"
  by (simp add: js_def)

lemma js_LF: "js ''\<newline>'' = [LF]"
  by (simp add: js_def LF_def)

lemma js_inject [simp]: "js a = js b \<longleftrightarrow> a = b"
proof -
  have "inj (\<lambda>c::char. (word_of_nat (of_char c) :: jschar))"
  proof (rule injI)
    fix x y :: char
    assume "(word_of_nat (of_char x) :: jschar) = word_of_nat (of_char y)"
    then have "unat (word_of_nat (of_char x) :: jschar) = unat (word_of_nat (of_char y) :: jschar)"
      by simp
    moreover have "of_char x < (256::nat)" "of_char y < (256::nat)"
      by simp_all
    ultimately have "(of_char x :: nat) = of_char y"
      by (simp add: unat_of_nat)
    then show "x = y" by simp
  qed
  then show ?thesis
    unfolding js_def by (simp add: inj_map_eq_map)
qed

lemma jschar_eq_LF: "(word_of_nat (of_char c) :: jschar) = LF \<longleftrightarrow> c = CHR ''\<newline>''"
  using js_inject [of "[c]" "''\<newline>''"] by (simp add: js_def LF_def)

lemma LF_in_js: "LF \<in> set (js s) \<longleftrightarrow> CHR ''\<newline>'' \<in> set s"
proof (induction s)
  case Nil
  show ?case by simp
next
  case (Cons c s)
  have "js (c # s) = word_of_nat (of_char c) # js s"
    by (simp add: js_def)
  with Cons jschar_eq_LF [of c] show ?case
    by auto
qed

lemma trim_Nil: "trim [] = []"
  by (simp add: trim_def)

lemma slice0_pos: "0 < n \<Longrightarrow> slice0 s n = take (nat n) s"
  by (simp add: slice0_def)

lemma reasoningEffortString_medium:
  "reasoningEffortString e = js ''medium'' \<longleftrightarrow> e = Medium"
  by (cases e) (simp_all add: js_def)

lemma sandboxModeString_danger:
  "sandboxModeString m = js ''danger-full-access'' \<longleftrightarrow> m = DangerFullAccess"
  by (cases m) (simp_all add: js_def)

lemma sandboxModeString_write:
  "sandboxModeString m = js ''workspace-write'' \<longleftrightarrow> m = WorkspaceWrite"
  by (cases m) (simp_all add: js_def)


section \<open>The fuel of the JSON parser\<close>

text \<open>More fuel never changes a result.\<close>

lemma fuel_mono:
  "(parseValue n s = Some x \<longrightarrow> parseValue (Suc n) s = Some x)
   \<and> (parseElements n s = Some y \<longrightarrow> parseElements (Suc n) s = Some y)
   \<and> (parseMembers n s = Some z \<longrightarrow> parseMembers (Suc n) s = Some z)"
proof (induction n arbitrary: s x y z)
  case 0
  show ?case by simp
next
  case (Suc n)
  have v: "\<And>s x. parseValue n s = Some x \<Longrightarrow> parseValue (Suc n) s = Some x"
    and e: "\<And>s y. parseElements n s = Some y \<Longrightarrow> parseElements (Suc n) s = Some y"
    and m: "\<And>s z. parseMembers n s = Some z \<Longrightarrow> parseMembers (Suc n) s = Some z"
    using Suc.IH by blast+
  have V: "parseValue (Suc n) s = Some x \<longrightarrow> parseValue (Suc (Suc n)) s = Some x"
  proof (cases "skipWs s")
    case Nil
    then show ?thesis by simp
  next
    case (Cons c cs)
    show ?thesis
    proof (cases "c = 0x7B")
      case True
      show ?thesis
      proof (cases "parseMembers n cs")
        case None
        with Cons True show ?thesis by (simp split: option.splits)
      next
        case (Some ms)
        from m [OF Some] Some Cons True show ?thesis
          by (simp split: option.splits)
      qed
    next
      case False
      show ?thesis
      proof (cases "c = 0x5B")
        case True
        show ?thesis
        proof (cases "parseElements n cs")
          case None
          with Cons True show ?thesis by (simp split: option.splits)
        next
          case (Some vs)
          from e [OF Some] Some Cons True show ?thesis
            by (simp split: option.splits)
        qed
      next
        case nb: False
        with Cons False show ?thesis by simp
      qed
    qed
  qed
  have E: "parseElements (Suc n) s = Some y \<longrightarrow> parseElements (Suc (Suc n)) s = Some y"
  proof (cases "parseValue n s")
    case None
    then show ?thesis by simp
  next
    case (Some p)
    obtain v' r where p: "p = (v', r)" by (cases p)
    from v [OF Some] have S: "parseValue (Suc n) s = Some p" .
    note E1 = parseElements.simps(2) [of n s] and E2 = parseElements.simps(2) [of "Suc n" s]
    show ?thesis
    proof (cases "expect 0x2C r")
      case None
      with Some S p show ?thesis
        unfolding E1 E2 by (simp del: parseValue.simps parseElements.simps)
    next
      case c: (Some r1)
      show ?thesis
      proof (cases "parseElements n r1")
        case None
        with Some S p c show ?thesis
          unfolding E1 E2 by (simp add: consTo_def del: parseValue.simps parseElements.simps)
      next
        case q: (Some q)
        from e [OF q] q Some S p c show ?thesis
          unfolding E1 E2 by (simp add: consTo_def del: parseValue.simps parseElements.simps)
      qed
    qed
  qed
  have M: "parseMembers (Suc n) s = Some z \<longrightarrow> parseMembers (Suc (Suc n)) s = Some z"
  proof (cases "expect 0x22 s")
    case None
    then show ?thesis by simp
  next
    case c1: (Some cs)
    show ?thesis
    proof (cases "parseChars cs")
      case None
      with c1 show ?thesis by simp
    next
      case c2: (Some kr)
      obtain k r where kr: "kr = (k, r)" by (cases kr)
      show ?thesis
      proof (cases "expect 0x3A r")
        case None
        with c1 c2 kr show ?thesis by simp
      next
        case c3: (Some r1)
        note M1 = parseMembers.simps(2) [of n s] and M2 = parseMembers.simps(2) [of "Suc n" s]
        show ?thesis
        proof (cases "parseValue n r1")
          case None
          with c1 c2 kr c3 show ?thesis
            unfolding M1 M2 by (simp del: parseValue.simps parseMembers.simps)
        next
          case c4: (Some p)
          obtain v' r2 where p: "p = (v', r2)" by (cases p)
          from v [OF c4] have S: "parseValue (Suc n) r1 = Some p" .
          show ?thesis
          proof (cases "expect 0x2C r2")
            case None
            with c1 c2 kr c3 c4 S p show ?thesis
              unfolding M1 M2 by (simp del: parseValue.simps parseMembers.simps)
          next
            case c5: (Some r3)
            show ?thesis
            proof (cases "parseMembers n r3")
              case None
              with c1 c2 kr c3 c4 S p c5 show ?thesis
                unfolding M1 M2
                by (simp add: consTo_def del: parseValue.simps parseMembers.simps)
            next
              case c6: (Some q)
              from m [OF c6] c6 c1 c2 kr c3 c4 S p c5 show ?thesis
                unfolding M1 M2
                by (simp add: consTo_def del: parseValue.simps parseMembers.simps)
            qed
          qed
        qed
      qed
    qed
  qed
  from V E M show ?case by blast
qed

text \<open>Every part of the parser that succeeds takes at least one character.\<close>

lemma length_skipWs: "length (skipWs s) \<le> length s"
  by (simp add: skipWs_def length_dropWhile_le)

lemma expect_shorter: "expect x s = Some r \<Longrightarrow> length r < length s"
  using length_skipWs [of s] by (auto simp: expect_def split: list.splits if_splits)

lemma consTo_Some: "consTo x p = Some (ys, r) \<longleftrightarrow> (\<exists>xs. p = Some (xs, r) \<and> ys = x # xs)"
  by (auto simp: consTo_def split: option.splits)

lemma parseChars_shorter: "parseChars cs = Some (k, r) \<Longrightarrow> length r < length cs"
proof (induction "length cs" arbitrary: cs k rule: less_induct)
  case less
  show ?case
  proof (cases cs)
    case Nil
    with less.prems show ?thesis by simp
  next
    case (Cons c cs0)
    show ?thesis
    proof (cases "c = 0x22")
      case True
      with less.prems Cons show ?thesis by simp
    next
      case nq: False
      show ?thesis
      proof (cases "c = 0x5C")
        case True
        show ?thesis
        proof (cases cs0)
          case Nil
          with less.prems Cons nq True show ?thesis by simp
        next
          case c1: (Cons e cs1)
          show ?thesis
          proof (cases "e = 0x75")
            case u: True
            from less.prems Cons nq True c1 u obtain h1 h2 h3 h4 cs2 uu k' where
              cs1: "cs1 = h1 # h2 # h3 # h4 # cs2" and r: "parseChars cs2 = Some (k', r)"
              by (auto simp: consTo_Some split: list.splits option.splits)
            have "length cs2 < length cs"
              using Cons c1 cs1 by simp
            from less.hyps [OF this r] this show ?thesis
              by simp
          next
            case nu: False
            from less.prems Cons nq True c1 nu obtain k' where r: "parseChars cs1 = Some (k', r)"
              by (auto simp: consTo_Some split: option.splits)
            have "length cs1 < length cs"
              using Cons c1 by simp
            from less.hyps [OF this r] this show ?thesis
              by simp
          qed
        qed
      next
        case nb: False
        with less.prems Cons nq obtain k' where r: "parseChars cs0 = Some (k', r)"
          by (auto simp: consTo_Some split: if_splits)
        have "length cs0 < length cs"
          using Cons by simp
        from less.hyps [OF this r] this show ?thesis
          by simp
      qed
    qed
  qed
qed

lemma literal_shorter: "w \<noteq> [] \<Longrightarrow> literal w s = Some r \<Longrightarrow> length r < length s"
proof -
  assume w: "w \<noteq> []" and l: "literal w s = Some r"
  then have t: "take (length w) s = w" and r: "r = drop (length w) s"
    by (auto simp: literal_def split: if_splits)
  from t have "length (take (length w) s) = length w"
    by simp
  then have "length w \<le> length s"
    by simp
  with w r show ?thesis
    by (cases w) auto
qed

lemma length_numSign: "length (snd (numSign s)) \<le> length s"
  by (auto simp: numSign_def split: list.splits)

lemma length_numInt: "length (numInt s) \<le> length s"
  by (auto simp: numInt_def length_takeWhile_le split: list.splits)

lemma length_numFrac: "length (snd (numFrac s)) \<le> length s"
  using length_dropWhile_le [of isDigit]
  by (auto simp: numFrac_def le_SucI split: list.splits)

lemma length_expSign: "length (snd (expSign s)) \<le> length s"
  by (auto simp: expSign_def split: list.splits)

lemma length_numExp: "length (snd (numExp s)) \<le> length s"
proof (cases s)
  case Nil
  then show ?thesis by (simp add: numExp_def)
next
  case (Cons c r)
  have "length (dropWhile isDigit (snd (expSign r))) \<le> length r"
    using length_dropWhile_le [of isDigit "snd (expSign r)"] length_expSign [of r] by simp
  with Cons show ?thesis
    by (simp add: numExp_def)
qed

lemma parseNumber_shorter: "parseNumber s = Some (x, r) \<Longrightarrow> length r < length s"
proof -
  assume a: "parseNumber s = Some (x, r)"
  let ?s1 = "snd (numSign s)"
  let ?ip = "numInt ?s1"
  let ?s3 = "snd (numFrac (drop (length ?ip) ?s1))"
  from a have ip: "?ip \<noteq> []" and r: "r = snd (numExp ?s3)"
    by (auto simp: parseNumber_def Let_def split: prod.splits if_splits)
  have "length r \<le> length ?s3"
    unfolding r by (rule length_numExp)
  also have "\<dots> \<le> length (drop (length ?ip) ?s1)"
    by (rule length_numFrac)
  also have "\<dots> = length ?s1 - length ?ip"
    by simp
  finally have "length r \<le> length ?s1 - length ?ip" .
  moreover have "0 < length ?ip"
    using ip by simp
  moreover note length_numInt [of ?s1] length_numSign [of s]
  ultimately show ?thesis
    by linarith
qed

text \<open>
  A parse that succeeds with some fuel succeeds with the number of characters it takes
  plus one.
\<close>

lemma fuel_le:
  assumes "n \<le> m"
  shows "parseValue n s = Some x \<Longrightarrow> parseValue m s = Some x"
    and "parseElements n s = Some y \<Longrightarrow> parseElements m s = Some y"
    and "parseMembers n s = Some z \<Longrightarrow> parseMembers m s = Some z"
proof -
  have "(parseValue n s = Some x \<longrightarrow> parseValue (n + k) s = Some x)
      \<and> (parseElements n s = Some y \<longrightarrow> parseElements (n + k) s = Some y)
      \<and> (parseMembers n s = Some z \<longrightarrow> parseMembers (n + k) s = Some z)" for k
  proof (induction k)
    case 0
    show ?case by simp
  next
    case (Suc k)
    with fuel_mono [of "n + k" s x y z] show ?case
      by (simp del: parseValue.simps parseElements.simps parseMembers.simps)
  qed
  from this [of "m - n"] assms
  show "parseValue n s = Some x \<Longrightarrow> parseValue m s = Some x"
    and "parseElements n s = Some y \<Longrightarrow> parseElements m s = Some y"
    and "parseMembers n s = Some z \<Longrightarrow> parseMembers m s = Some z"
    by simp_all
qed

lemma skipWs_Cons_shorter: "skipWs s = c # cs \<Longrightarrow> length cs < length s"
  using length_skipWs [of s] by simp

lemma fuel_enough:
  "(\<forall>s v r. parseValue n s = Some (v, r) \<longrightarrow>
       length r < length s \<and> parseValue (Suc (length s - length r)) s = Some (v, r))
   \<and> (\<forall>s vs r. parseElements n s = Some (vs, r) \<longrightarrow>
       length r < length s \<and> parseElements (Suc (length s - length r)) s = Some (vs, r))
   \<and> (\<forall>s ms r. parseMembers n s = Some (ms, r) \<longrightarrow>
       length r < length s \<and> parseMembers (Suc (length s - length r)) s = Some (ms, r))"
proof (induction n)
  case 0
  show ?case by simp
next
  case (Suc n)
  have v: "\<And>s v r. parseValue n s = Some (v, r) \<Longrightarrow>
       length r < length s \<and> parseValue (Suc (length s - length r)) s = Some (v, r)"
    and e: "\<And>s vs r. parseElements n s = Some (vs, r) \<Longrightarrow>
       length r < length s \<and> parseElements (Suc (length s - length r)) s = Some (vs, r)"
    and m: "\<And>s ms r. parseMembers n s = Some (ms, r) \<Longrightarrow>
       length r < length s \<and> parseMembers (Suc (length s - length r)) s = Some (ms, r)"
    using Suc.IH by blast+
  have V: "length r < length s \<and> parseValue (Suc (length s - length r)) s = Some (v, r)"
    if a: "parseValue (Suc n) s = Some (v, r)" for s v r
  proof (cases "skipWs s")
    case Nil
    with a show ?thesis by simp
  next
    case (Cons c cs)
    note sh = skipWs_Cons_shorter [OF Cons]
    let ?k = "length s - length r"
    note U = parseValue.simps(2) [of ?k s]
    show ?thesis
    proof (cases "c = 0x7B")
      case True
      show ?thesis
      proof (cases "expect 0x7D cs")
        case (Some r0)
        with a Cons True have "v = JObj []" "r = r0" by simp_all
        with expect_shorter [OF Some] sh Some Cons True show ?thesis
          unfolding U by simp
      next
        case None
        with a Cons True obtain ms where ms: "parseMembers n cs = Some (ms, r)" and v': "v = JObj ms"
          by (auto split: option.splits)
        from m [OF ms] have lr: "length r < length cs"
          and p: "parseMembers (Suc (length cs - length r)) cs = Some (ms, r)" by simp_all
        from lr sh have "Suc (length cs - length r) \<le> ?k" by linarith
        from fuel_le(3) [OF this p] have "parseMembers ?k cs = Some (ms, r)" .
        with lr sh None Cons True v' show ?thesis
          unfolding U by simp
      qed
    next
      case no: False
      show ?thesis
      proof (cases "c = 0x5B")
        case True
        show ?thesis
        proof (cases "expect 0x5D cs")
          case (Some r0)
          with a Cons True have "v = JArr []" "r = r0" by simp_all
          with expect_shorter [OF Some] sh Some Cons True show ?thesis
            unfolding U by simp
        next
          case None
          with a Cons True obtain vs where vs: "parseElements n cs = Some (vs, r)" and v': "v = JArr vs"
            by (auto split: option.splits)
          from e [OF vs] have lr: "length r < length cs"
            and p: "parseElements (Suc (length cs - length r)) cs = Some (vs, r)" by simp_all
          from lr sh have "Suc (length cs - length r) \<le> ?k" by linarith
          from fuel_le(2) [OF this p] have "parseElements ?k cs = Some (vs, r)" .
          with lr sh None Cons True v' show ?thesis
            unfolding U by simp
        qed
      next
        case na: False
        have same: "parseValue (Suc ?k) s = parseValue (Suc n) s"
          using Cons no na by simp
        have lc: "length (c # cs) \<le> length s"
          using length_skipWs [of s] Cons by simp
        have "length r < length s"
        proof (cases "c = 0x22")
          case True
          with a Cons no na obtain str where "parseChars cs = Some (str, r)"
            by (auto split: option.splits)
          from parseChars_shorter [OF this] sh show ?thesis by simp
        next
          case nq: False
          show ?thesis
          proof (cases "c = 0x74")
            case True
            with a Cons no na nq have "literal (js ''true'') (c # cs) = Some r"
              by (auto split: option.splits)
            from literal_shorter [OF _ this] lc show ?thesis by simp
          next
            case nt: False
            show ?thesis
            proof (cases "c = 0x66")
              case True
              with a Cons no na nq nt have "literal (js ''false'') (c # cs) = Some r"
                by (auto split: option.splits)
              from literal_shorter [OF _ this] lc show ?thesis by simp
            next
              case nf: False
              show ?thesis
              proof (cases "c = 0x6E")
                case True
                with a Cons no na nq nt nf have "literal (js ''null'') (c # cs) = Some r"
                  by (auto split: option.splits)
                from literal_shorter [OF _ this] lc show ?thesis by simp
              next
                case False
                with a Cons no na nq nt nf obtain x where "parseNumber (c # cs) = Some (x, r)"
                  by (auto split: option.splits)
                from parseNumber_shorter [OF this] lc show ?thesis by simp
              qed
            qed
          qed
        qed
        with same a show ?thesis by simp
      qed
    qed
  qed
  have E: "length r < length s \<and> parseElements (Suc (length s - length r)) s = Some (vs, r)"
    if a: "parseElements (Suc n) s = Some (vs, r)" for s vs r
  proof -
    let ?k = "length s - length r"
    note U = parseElements.simps(2) [of ?k s]
    from a obtain v0 r0 where v0: "parseValue n s = Some (v0, r0)"
      by (auto split: option.splits)
    from v [OF v0] have l0: "length r0 < length s"
      and p0: "parseValue (Suc (length s - length r0)) s = Some (v0, r0)" by simp_all
    show ?thesis
    proof (cases "expect 0x2C r0")
      case (Some r1)
      note l1 = expect_shorter [OF Some]
      from a v0 Some obtain vs' where rest: "parseElements n r1 = Some (vs', r)" and vs: "vs = v0 # vs'"
        by (auto simp: consTo_Some)
      from e [OF rest] have lr: "length r < length r1"
        and p1: "parseElements (Suc (length r1 - length r)) r1 = Some (vs', r)" by simp_all
      from lr l1 l0 have "Suc (length s - length r0) \<le> ?k" by linarith
      from fuel_le(1) [OF this p0] have q0: "parseValue ?k s = Some (v0, r0)" .
      from lr l1 l0 have "Suc (length r1 - length r) \<le> ?k" by linarith
      from fuel_le(2) [OF this p1] have q1: "parseElements ?k r1 = Some (vs', r)" .
      from lr l1 l0 q0 q1 Some vs show ?thesis
        unfolding U by (simp add: consTo_def)
    next
      case None
      with a v0 obtain r1 where cl: "expect 0x5D r0 = Some r1" and vs: "vs = [v0]" and r: "r = r1"
        by (auto split: option.splits)
      note l1 = expect_shorter [OF cl]
      from l1 l0 have "Suc (length s - length r0) \<le> ?k" unfolding r by linarith
      from fuel_le(1) [OF this p0] have q0: "parseValue ?k s = Some (v0, r0)" .
      from l1 l0 r q0 None cl vs show ?thesis
        unfolding U by simp
    qed
  qed
  have M: "length r < length s \<and> parseMembers (Suc (length s - length r)) s = Some (ms, r)"
    if a: "parseMembers (Suc n) s = Some (ms, r)" for s ms r
  proof -
    let ?k = "length s - length r"
    note U = parseMembers.simps(2) [of ?k s]
    from a obtain cs where c1: "expect 0x22 s = Some cs"
      by (auto split: option.splits)
    note lcs = expect_shorter [OF c1]
    from a c1 obtain k r0 where c2: "parseChars cs = Some (k, r0)"
      by (auto split: option.splits)
    note lr0 = parseChars_shorter [OF c2]
    from a c1 c2 obtain r1 where c3: "expect 0x3A r0 = Some r1"
      by (auto split: option.splits)
    note lr1 = expect_shorter [OF c3]
    from a c1 c2 c3 obtain v0 r2 where c4: "parseValue n r1 = Some (v0, r2)"
      by (auto split: option.splits)
    from v [OF c4] have l2: "length r2 < length r1"
      and p4: "parseValue (Suc (length r1 - length r2)) r1 = Some (v0, r2)" by simp_all
    show ?thesis
    proof (cases "expect 0x2C r2")
      case (Some r3)
      note l3 = expect_shorter [OF Some]
      from a c1 c2 c3 c4 Some obtain ms' where rest: "parseMembers n r3 = Some (ms', r)"
        and ms: "ms = (k, v0) # ms'"
        by (auto simp: consTo_Some)
      from m [OF rest] have lr: "length r < length r3"
        and p5: "parseMembers (Suc (length r3 - length r)) r3 = Some (ms', r)" by simp_all
      from lr l3 l2 lr1 lr0 lcs have "Suc (length r1 - length r2) \<le> ?k" by linarith
      from fuel_le(1) [OF this p4] have q4: "parseValue ?k r1 = Some (v0, r2)" .
      from lr l3 l2 lr1 lr0 lcs have "Suc (length r3 - length r) \<le> ?k" by linarith
      from fuel_le(3) [OF this p5] have q5: "parseMembers ?k r3 = Some (ms', r)" .
      from lr l3 l2 lr1 lr0 lcs c1 c2 c3 q4 q5 Some ms show ?thesis
        unfolding U by (simp add: consTo_def)
    next
      case None
      with a c1 c2 c3 c4 obtain r3 where cl: "expect 0x7D r2 = Some r3" and ms: "ms = [(k, v0)]"
        and r: "r = r3"
        by (auto split: option.splits)
      note l3 = expect_shorter [OF cl]
      from l3 l2 lr1 lr0 lcs have "Suc (length r1 - length r2) \<le> ?k" unfolding r by linarith
      from fuel_le(1) [OF this p4] have q4: "parseValue ?k r1 = Some (v0, r2)" .
      from l3 l2 lr1 lr0 lcs r c1 c2 c3 q4 None cl ms show ?thesis
        unfolding U by simp
    qed
  qed
  from V E M show ?case by blast
qed

text \<open>
  The fuel that \<open>JSON_parse\<close> gives is enough: a document that is parsed with any fuel
  is parsed by \<open>JSON_parse\<close>, with the same value.
\<close>

lemma JSON_parse_fuel:
  "JSON_parse s = Some v \<longleftrightarrow> (\<exists>n r. parseValue n s = Some (v, r) \<and> skipWs r = [])"
proof
  assume "JSON_parse s = Some v"
  then obtain r where "parseValue (Suc (length s)) s = Some (v, r)" and "skipWs r = []"
    by (auto simp: JSON_parse_def simp del: parseValue.simps split: option.splits if_splits)
  then show "\<exists>n r. parseValue n s = Some (v, r) \<and> skipWs r = []"
    by blast
next
  assume "\<exists>n r. parseValue n s = Some (v, r) \<and> skipWs r = []"
  then obtain n r where p: "parseValue n s = Some (v, r)" and w: "skipWs r = []"
    by blast
  from fuel_enough [of n] p have "parseValue (Suc (length s - length r)) s = Some (v, r)"
    by blast
  from fuel_le(1) [OF _ this, of "Suc (length s)"] have "parseValue (Suc (length s)) s = Some (v, r)"
    by simp
  with w show "JSON_parse s = Some v"
    by (simp add: JSON_parse_def del: parseValue.simps)
qed


section \<open>The argument vector\<close>

text \<open>
  Claim C6. For every prompt and configuration the argument vector is
  \<open>exec --json\<close>, then the sandbox flag (\<open>--sandbox danger-full-access\<close> for full access,
  \<open>--full-auto\<close> for workspace-write, nothing for the default read-only mode), then
  \<open>--model <name>\<close> exactly when a model override is configured (a non-empty string),
  then \<open>--reasoning-effort <low|high>\<close> exactly when the effort is not medium, then
  \<open>--skip-git-repo-check\<close>, and the prompt as the last argument. With the default
  settings (read-only, no model, medium effort) and the prompt \<open>hello\<close> the vector is
  \<open>["exec", "--json", "--skip-git-repo-check", "hello"]\<close>.
\<close>

theorem buildArgs_vector:
  "buildArgs settings prompt =
     [js ''exec'', js ''--json'']
     @ (case sandboxMode settings of
          ReadOnly \<Rightarrow> []
        | WorkspaceWrite \<Rightarrow> [js ''--full-auto'']
        | DangerFullAccess \<Rightarrow> [js ''--sandbox'', js ''danger-full-access''])
     @ (if modelOverride settings = [] then [] else [js ''--model'', modelOverride settings])
     @ (case reasoningEffort settings of
          Medium \<Rightarrow> []
        | Low \<Rightarrow> [js ''--reasoning-effort'', js ''low'']
        | High \<Rightarrow> [js ''--reasoning-effort'', js ''high''])
     @ [js ''--skip-git-repo-check'', prompt]
   \<and> last (buildArgs settings prompt) = prompt
   \<and> buildArgs DEFAULT_SETTINGS (js ''hello'')
       = [js ''exec'', js ''--json'', js ''--skip-git-repo-check'', js ''hello'']"
proof -
  have vec: "buildArgs settings prompt =
     [js ''exec'', js ''--json'']
     @ (case sandboxMode settings of
          ReadOnly \<Rightarrow> []
        | WorkspaceWrite \<Rightarrow> [js ''--full-auto'']
        | DangerFullAccess \<Rightarrow> [js ''--sandbox'', js ''danger-full-access''])
     @ (if modelOverride settings = [] then [] else [js ''--model'', modelOverride settings])
     @ (case reasoningEffort settings of
          Medium \<Rightarrow> []
        | Low \<Rightarrow> [js ''--reasoning-effort'', js ''low'']
        | High \<Rightarrow> [js ''--reasoning-effort'', js ''high''])
     @ [js ''--skip-git-repo-check'', prompt]"
    unfolding buildArgs_def Let_def
      reasoningEffortString_medium sandboxModeString_danger sandboxModeString_write
    by (cases "sandboxMode settings"; cases "reasoningEffort settings") simp_all
  have lst: "last (buildArgs settings prompt) = prompt"
    by (simp add: buildArgs_def Let_def)
  have ex: "buildArgs DEFAULT_SETTINGS (js ''hello'')
       = [js ''exec'', js ''--json'', js ''--skip-git-repo-check'', js ''hello'']"
    unfolding buildArgs_def Let_def
      reasoningEffortString_medium sandboxModeString_danger sandboxModeString_write
    by (simp add: DEFAULT_SETTINGS_def)
  from vec lst ex show ?thesis by blast
qed


section \<open>Note-context formatting\<close>

text \<open>
  Claim C10. For every title, path, content and maximum length: when the available
  length (the maximum length minus the header's length minus the margin of 10) is not
  positive, and in particular when the maximum length is smaller than the header's
  length, the formatted unit is the empty string. Otherwise the unit is the header,
  then the content, cut to exactly the available length and followed by the truncation
  marker when it is longer than that and unchanged when it is not, then a newline.
\<close>

theorem formatNoteContext_available:
  "let header = js ''Note: '' @ title @ js '' ('' @ path @ js '')'' @ [LF];
       available = maxLength - int (length header) - 10;
       unit = formatNoteContext title path noteContent maxLength
   in (available \<le> 0 \<longrightarrow> unit = [])
    \<and> (maxLength < int (length header) \<longrightarrow> unit = [])
    \<and> (0 < available \<and> int (length noteContent) \<le> available \<longrightarrow>
          unit = header @ noteContent @ [LF])
    \<and> (0 < available \<and> available < int (length noteContent) \<longrightarrow>
          unit = header @ take (nat available) noteContent @ [LF] @ js ''...(truncated)'' @ [LF]
          \<and> int (length (take (nat available) noteContent)) = available)"
  by (auto simp: formatNoteContext_def Let_def slice0_pos)

theorem formatNoteContext_available_witness:
  "formatNoteContext (js ''T'') (js ''p.md'') (js ''0123456789'') 20 = []
   \<and> formatNoteContext (js ''T'') (js ''p.md'') (js ''0123456789'') 10 = []
   \<and> formatNoteContext (js ''T'') (js ''p.md'') (js ''0123456789'') 40
       = js ''Note: T (p.md)'' @ [LF] @ js ''0123456789'' @ [LF]
   \<and> formatNoteContext (js ''T'') (js ''p.md'') (js ''0123456789'') 30
       = js ''Note: T (p.md)'' @ [LF] @ js ''01234'' @ [LF] @ js ''...(truncated)'' @ [LF]"
  using formatNoteContext_available [of "js ''T''" "js ''p.md''" 20 "js ''0123456789''"]
    formatNoteContext_available [of "js ''T''" "js ''p.md''" 10 "js ''0123456789''"]
    formatNoteContext_available [of "js ''T''" "js ''p.md''" 40 "js ''0123456789''"]
    formatNoteContext_available [of "js ''T''" "js ''p.md''" 30 "js ''0123456789''"]
  by (simp add: Let_def js_def)


section \<open>The budget split\<close>

text \<open>
  Rounding to the nearest integer stays between the integers around its argument, and
  so does rounding to a double below \<open>2^53\<close>, where every integer is a double.
\<close>

lemma roundHalfEven_of_int: "roundHalfEven (of_int n) = n"
  by (simp add: roundHalfEven_def)

lemma roundHalfEven_ge: "of_int N \<le> y \<Longrightarrow> N \<le> roundHalfEven y"
proof -
  assume "of_int N \<le> y"
  then have "N \<le> \<lfloor>y\<rfloor>"
    by (simp add: le_floor_iff)
  then show ?thesis
    by (simp add: roundHalfEven_def Let_def)
qed

lemma roundHalfEven_le: "y \<le> of_int M \<Longrightarrow> roundHalfEven y \<le> M"
proof -
  assume a: "y \<le> of_int M"
  then have f: "\<lfloor>y\<rfloor> \<le> M"
    by (simp add: floor_le_iff)
  show ?thesis
  proof (cases "y - of_int \<lfloor>y\<rfloor> < 1 / 2")
    case True
    with f show ?thesis by (simp add: roundHalfEven_def Let_def)
  next
    case False
    then have "of_int \<lfloor>y\<rfloor> < y" by linarith
    with a have "(of_int \<lfloor>y\<rfloor> :: rat) < of_int M" by linarith
    then have "\<lfloor>y\<rfloor> < M" by simp
    then show ?thesis by (simp add: roundHalfEven_def Let_def)
  qed
qed

lemma binaryExponent_le: "0 < m \<Longrightarrow> m < 2 ^ 53 \<Longrightarrow> binaryExponent m \<le> 52"
proof -
  assume p: "0 < m" and b: "m < 2 ^ 53"
  show ?thesis
  proof (cases "1 \<le> m")
    case True
    from b have "\<lfloor>m\<rfloor> < 2 ^ 53"
      by (simp add: floor_less_iff)
    then have "bitlen \<lfloor>m\<rfloor> \<le> int 53"
      unfolding bitlen_le_iff_power by simp
    with True show ?thesis by (simp add: binaryExponent_def)
  next
    case False
    with bitlen_nonneg [of "\<lceil>1 / m\<rceil> - 1"] show ?thesis
      by (simp add: binaryExponent_def)
  qed
qed

lemma fl_between:
  assumes "0 < m" and "m < 2 ^ 53" and "of_int N \<le> m" and "m \<le> of_int M"
  shows "of_int N \<le> fl m \<and> fl m \<le> of_int M"
proof -
  define q where "q = max (binaryExponent m - 52) (- 1074)"
  define k where "k = nat (- q)"
  from binaryExponent_le [OF assms(1,2)] have q0: "q \<le> 0"
    by (simp add: q_def)
  then have pw: "(2::rat) powi q = 1 / 2 ^ k"
    by (cases "q = 0") (simp_all add: power_int_def k_def field_simps)
  have sc: "m / 2 powi q = m * 2 ^ k"
    by (simp add: pw)
  have lo: "(of_int (N * 2 ^ k) :: rat) \<le> m * 2 ^ k"
    using assms(3) by simp
  have hi: "m * 2 ^ k \<le> (of_int (M * 2 ^ k) :: rat)"
    using assms(4) by simp
  let ?r = "roundHalfEven (m * 2 ^ k)"
  from roundHalfEven_ge [OF lo] have "(of_int (N * 2 ^ k) :: rat) \<le> of_int ?r"
    by (simp only: of_int_le_iff)
  then have l2: "(of_int N :: rat) \<le> of_int ?r / 2 ^ k"
    by (simp add: field_simps)
  from roundHalfEven_le [OF hi] have "(of_int ?r :: rat) \<le> of_int (M * 2 ^ k)"
    by (simp only: of_int_le_iff)
  then have h2: "(of_int ?r :: rat) / 2 ^ k \<le> of_int M"
    by (simp add: field_simps)
  have "fl m = of_int ?r / 2 ^ k"
    using assms(1) by (simp add: fl_def Let_def q_def [symmetric] sc pw)
  with l2 h2 show ?thesis by simp
qed

lemma fl_of_int: "0 \<le> n \<Longrightarrow> n < 2 ^ 53 \<Longrightarrow> fl (of_int n) = of_int n"
proof (cases "n = 0")
  case True
  then show ?thesis by (simp add: fl_def)
next
  case False
  assume "0 \<le> n" and "n < 2 ^ 53"
  with False have "(0::rat) < of_int n" and "(of_int n :: rat) < 2 ^ 53"
    by simp_all
  from fl_between [OF this, of n n] show ?thesis
    by simp
qed

lemma jsAdd_integers:
  assumes "0 \<le> a" and "0 \<le> b" and "a + b < 2 ^ 53"
  shows "jsAdd (Num (of_int a)) (Num (of_int b)) = Num (of_int (a + b))"
proof (cases "a + b = 0")
  case True
  with assms have "a = 0" "b = 0" by simp_all
  then show ?thesis by (simp add: jsAdd_def isInfinite_def)
next
  case False
  with assms have p: "0 \<le> a + b" by simp
  from fl_of_int [OF p assms(3)] have f: "fl (of_int a + of_int b) = of_int a + of_int b"
    by simp
  have lt: "(of_int a + of_int b :: rat) < 2 ^ 1024"
  proof -
    from assms(3) have "(of_int (a + b) :: rat) < of_int (2 ^ 53)"
      by (simp only: of_int_less_iff)
    then show ?thesis by simp
  qed
  have nz: "(of_int a + of_int b :: rat) \<noteq> 0"
    using False by (metis of_int_add of_int_eq_0_iff)
  have nn: "(0::rat) \<le> of_int a + of_int b"
    using assms by simp
  from nz nn lt f show ?thesis
    by (simp add: jsAdd_def isInfinite_def Let_def roundSigned_def)
qed

lemma jsSub_integers:
  assumes "0 \<le> b" and "b \<le> a" and "a < 2 ^ 53"
  shows "jsSub (Num (of_int a)) (Num (of_int b)) = Num (of_int (a - b))"
proof (cases "a = b")
  case True
  then show ?thesis
    by (simp add: jsSub_def jsAdd_def isInfinite_def)
next
  case False
  with assms have p: "0 \<le> a - b" and lt53: "a - b < 2 ^ 53" and pos: "0 < a - b"
    by simp_all
  from fl_of_int [OF p lt53] have f: "fl (of_int a - of_int b) = of_int a - of_int b"
    by simp
  have lt: "(of_int a - of_int b :: rat) < 2 ^ 1024"
  proof -
    from lt53 have "(of_int (a - b) :: rat) < of_int (2 ^ 53)"
      by (simp only: of_int_less_iff)
    then show ?thesis by simp
  qed
  have gt: "(0::rat) < of_int a - of_int b"
    using pos by (metis of_int_0_less_iff of_int_diff)
  from gt lt f show ?thesis
    by (cases "b = 0") (simp_all add: jsSub_def jsAdd_def isInfinite_def Let_def roundSigned_def)
qed

lemma jsMul_budget:
  assumes "0 \<le> T" and "T < 2 ^ 53" and "0 < r" and "r < 1"
  shows "jsMul (Num (of_int T)) (Num r) = Num (fl (of_int T * r))"
    and "0 \<le> fl (of_int T * r)" and "fl (of_int T * r) \<le> of_int T"
    and "of_int \<lfloor>of_int T * r\<rfloor> \<le> fl (of_int T * r)"
    and "fl (of_int T * r) \<le> of_int (\<lfloor>of_int T * r\<rfloor> + 1)"
proof -
  let ?m = "of_int T * r"
  have b: "0 \<le> fl ?m \<and> fl ?m \<le> of_int T
      \<and> of_int \<lfloor>?m\<rfloor> \<le> fl ?m \<and> fl ?m \<le> of_int (\<lfloor>?m\<rfloor> + 1)"
  proof (cases "T = 0")
    case True
    then show ?thesis by (simp add: fl_def)
  next
    case False
    with assms(1) have Tp: "(0::rat) < of_int T" by simp
    with assms(3) have mp: "0 < ?m" by simp
    from Tp assms(4) have mT: "?m < of_int T"
      by (simp add: mult_less_cancel_left2)
    from assms(2) have "(of_int T :: rat) < of_int (2 ^ 53)"
      by (simp only: of_int_less_iff)
    with mT have m53: "?m < 2 ^ 53" by simp
    have z: "(of_int 0 :: rat) \<le> ?m" using mp by simp
    have t: "?m \<le> of_int T" using mT by simp
    from fl_between [OF mp m53 z t] have "0 \<le> fl ?m" "fl ?m \<le> of_int T" by simp_all
    moreover have "(of_int \<lfloor>?m\<rfloor> :: rat) \<le> ?m" by simp
    moreover have "?m \<le> of_int (\<lfloor>?m\<rfloor> + 1)"
      by (metis add.commute le_floor_add less_eq_rat_def floor_correct of_int_add of_int_1 less_imp_le)
    ultimately show ?thesis
      using fl_between [OF mp m53, of "\<lfloor>?m\<rfloor>" "\<lfloor>?m\<rfloor> + 1"] by blast
  qed
  from b show "0 \<le> fl ?m" "fl ?m \<le> of_int T" "of_int \<lfloor>?m\<rfloor> \<le> fl ?m"
    "fl ?m \<le> of_int (\<lfloor>?m\<rfloor> + 1)" by simp_all
  from assms(2) have "(of_int T :: rat) < of_int (2 ^ 53)"
    by (simp only: of_int_less_iff)
  with b have "fl ?m < 2 ^ 1024" by simp
  with b assms show "jsMul (Num (of_int T)) (Num r) = Num (fl ?m)"
    by (simp add: jsMul_def isInfinite_def roundSigned_def Let_def abs_mult)
qed

text \<open>
  Claim C9. For every total character budget (an integer from 0 to below \<open>2^53\<close>) and
  every ratio strictly between 0 and 1, the context budget is the floor of total times
  ratio, the product being the product of Numbers (the double nearest to the exact
  product), and the memory budget is the total minus the context budget, so the two
  add up to the total exactly, also in the arithmetic of Numbers. The context budget
  lies between 0 and the total, and it is the floor of the exact product or one more.
  For the ratio \<open>0.6\<close> and the total 10000 the budgets are 6000 and 4000.
\<close>

theorem budget_split_exact:
  assumes "0 \<le> totalBudget" and "totalBudget < 2 ^ 53" and "0 < ratio" and "ratio < 1"
  shows "vaultBudget (Num (of_int totalBudget)) (Num ratio)
           = Num (of_int \<lfloor>fl (of_int totalBudget * ratio)\<rfloor>)
       \<and> memoryBudget (Num (of_int totalBudget)) (Num ratio)
           = Num (of_int (totalBudget - \<lfloor>fl (of_int totalBudget * ratio)\<rfloor>))
       \<and> jsAdd (vaultBudget (Num (of_int totalBudget)) (Num ratio))
               (memoryBudget (Num (of_int totalBudget)) (Num ratio))
           = Num (of_int totalBudget)
       \<and> 0 \<le> \<lfloor>fl (of_int totalBudget * ratio)\<rfloor>
       \<and> \<lfloor>fl (of_int totalBudget * ratio)\<rfloor> \<le> totalBudget
       \<and> \<lfloor>of_int totalBudget * ratio\<rfloor> \<le> \<lfloor>fl (of_int totalBudget * ratio)\<rfloor>
       \<and> \<lfloor>fl (of_int totalBudget * ratio)\<rfloor> \<le> \<lfloor>of_int totalBudget * ratio\<rfloor> + 1
       \<and> vaultBudget (Num 10000) (numberValue (6 / 10)) = Num 6000
       \<and> memoryBudget (Num 10000) (numberValue (6 / 10)) = Num 4000"
proof -
  let ?p = "fl (of_int totalBudget * ratio)"
  let ?V = "\<lfloor>?p\<rfloor>"
  note m = jsMul_budget [OF assms]
  have v: "vaultBudget (Num (of_int totalBudget)) (Num ratio) = Num (of_int ?V)"
    by (simp add: vaultBudget_def m(1))
  have V0: "0 \<le> ?V"
    using m(2) by simp
  have VT: "?V \<le> totalBudget"
    using m(3) by (simp add: floor_le_iff)
  have lo: "\<lfloor>of_int totalBudget * ratio\<rfloor> \<le> ?V"
    using m(4) by (simp add: le_floor_iff)
  have hi: "?V \<le> \<lfloor>of_int totalBudget * ratio\<rfloor> + 1"
    using m(5) by (metis floor_mono floor_of_int)
  have mb: "memoryBudget (Num (of_int totalBudget)) (Num ratio) = Num (of_int (totalBudget - ?V))"
    unfolding memoryBudget_def v by (rule jsSub_integers [OF V0 VT assms(2)])
  have sum: "jsAdd (Num (of_int ?V)) (Num (of_int (totalBudget - ?V))) = Num (of_int totalBudget)"
    using jsAdd_integers [of ?V "totalBudget - ?V"] V0 VT assms(2) by simp
  have e1: "vaultBudget (Num 10000) (numberValue (6 / 10)) = Num 6000"
    by code_simp
  have e2: "memoryBudget (Num 10000) (numberValue (6 / 10)) = Num 4000"
    by code_simp
  from v mb sum V0 VT lo hi e1 e2 show ?thesis
    by simp
qed

text \<open>
  The total 11000 and the ratio \<open>0.7\<close>, which is the double
  \<open>3152519739159347 / 2^52\<close>: the product of the two Numbers is just below 7700, and
  the budgets are 7699 and 3301.
\<close>

theorem budget_split_exact_witness:
  "(0::int) \<le> 11000 \<and> (11000::int) < 2 ^ 53
   \<and> (0::rat) < 3152519739159347 / 4503599627370496
   \<and> (3152519739159347 / 4503599627370496 :: rat) < 1
   \<and> numberValue (7 / 10) = Num (3152519739159347 / 4503599627370496)
   \<and> vaultBudget (Num 11000) (Num (3152519739159347 / 4503599627370496)) = Num 7699
   \<and> memoryBudget (Num 11000) (Num (3152519739159347 / 4503599627370496)) = Num 3301
   \<and> jsAdd (Num 7699) (Num 3301) = Num 11000"
proof -
  let ?r = "3152519739159347 / 4503599627370496 :: rat"
  have h: "(0::int) \<le> 11000" "(11000::int) < 2 ^ 53" "0 < ?r" "?r < 1"
    by simp_all
  have nv: "numberValue (7 / 10) = Num ?r"
    by code_simp
  have p: "\<lfloor>fl (of_int 11000 * ?r)\<rfloor> = 7699"
    by code_simp
  from budget_split_exact [OF h] have
    "vaultBudget (Num (of_int 11000)) (Num ?r) = Num (of_int \<lfloor>fl (of_int 11000 * ?r)\<rfloor>)"
    "memoryBudget (Num (of_int 11000)) (Num ?r)
       = Num (of_int (11000 - \<lfloor>fl (of_int 11000 * ?r)\<rfloor>))"
    "jsAdd (vaultBudget (Num (of_int 11000)) (Num ?r)) (memoryBudget (Num (of_int 11000)) (Num ?r))
       = Num (of_int 11000)"
    by blast+
  then have "vaultBudget (Num 11000) (Num ?r) = Num 7699"
    and "memoryBudget (Num 11000) (Num ?r) = Num 3301"
    and "jsAdd (Num 7699) (Num 3301) = Num 11000"
    unfolding p by simp_all
  with h nv show ?thesis
    by blast
qed


section \<open>Conversation memory\<close>

text \<open>
  The loop adds the lines of a prefix of the messages: line \<open>i\<close> is rendered from
  message \<open>i\<close> at the running total, the running total stays within \<open>maxChars\<close> after
  every added line, and the loop stops at the first line that would exceed it.
\<close>

lemma memoryLoop_lines:
  "memoryLoop maxChars msgs (t, ps) = (t', ps') \<Longrightarrow>
   \<exists>ls. ps' = ps @ ls \<and> length ls \<le> length msgs
      \<and> t' = t + int (length (concat ls))
      \<and> (\<forall>i<length ls.
            ls ! i = memoryLine maxChars (t + int (length (concat (take i ls)))) (msgs ! i)
          \<and> t + int (length (concat (take (Suc i) ls))) \<le> maxChars)
      \<and> (length ls < length msgs \<longrightarrow>
            maxChars < t' + int (length (memoryLine maxChars t' (msgs ! length ls))))"
proof (induction msgs arbitrary: t ps)
  case Nil
  then show ?case by simp
next
  case (Cons msg rest)
  let ?line = "memoryLine maxChars t msg"
  show ?case
  proof (cases "t + int (length ?line) > maxChars")
    case True
    with Cons.prems have "t' = t" "ps' = ps" by (simp_all add: Let_def)
    with True show ?thesis by (intro exI [of _ "[]"]) simp
  next
    case False
    with Cons.prems have
      "memoryLoop maxChars rest (t + int (length ?line), ps @ [?line]) = (t', ps')"
      by (simp add: Let_def)
    from Cons.IH [OF this] obtain ls where
      ls: "ps' = (ps @ [?line]) @ ls" "length ls \<le> length rest"
        "t' = t + int (length ?line) + int (length (concat ls))"
        "\<forall>i<length ls.
            ls ! i = memoryLine maxChars (t + int (length ?line) + int (length (concat (take i ls)))) (rest ! i)
          \<and> t + int (length ?line) + int (length (concat (take (Suc i) ls))) \<le> maxChars"
        "length ls < length rest \<longrightarrow>
            maxChars < t' + int (length (memoryLine maxChars t' (rest ! length ls)))"
      by blast
    have idx: "(?line # ls) ! i = memoryLine maxChars (t + int (length (concat (take i (?line # ls))))) ((msg # rest) ! i)
          \<and> t + int (length (concat (take (Suc i) (?line # ls)))) \<le> maxChars"
      if "i < length (?line # ls)" for i
    proof (cases i)
      case 0
      with False show ?thesis by simp
    next
      case (Suc j)
      with that have "j < length ls" by simp
      with ls(4) Suc show ?thesis by (simp add: add.assoc)
    qed
    show ?thesis
      apply (intro exI [of _ "?line # ls"])
      using ls(1,2,3,5) idx by auto
  qed
qed

lemma memoryLine_capped:
  "memoryLine maxChars t msg =
     (if role msg = User then js ''User'' else js ''Assistant'') @ js '': ''
     @ (if int (length (content msg)) > max 500 ((maxChars - t) div 2)
        then take (nat (max 500 ((maxChars - t) div 2))) (content msg) @ js ''...(truncated)''
        else content msg)
     @ [LF]"
proof -
  have "0 \<le> max 500 ((maxChars - t) div 2)"
    by simp
  then show ?thesis
    unfolding memoryLine_def Let_def slice0_def by (simp only: if_True)
qed

text \<open>
  Claim C8, the example as the claim states it: with a budget of 4000 characters and
  two turns of 3000 characters only the first turn is included. On the code both turns
  are included, the first cut to 1988 characters and the second to 984, each followed
  by the truncation marker.
\<close>

theorem buildConversationMemory_two_turns_counterexample:
  "buildConversationMemory
     [\<lparr>role = User, content = replicate 3000 0x61, timestamp = 0\<rparr>,
      \<lparr>role = Assistant, content = replicate 3000 0x62, timestamp = 1\<rparr>]
     DEFAULT_SETTINGS 4000
   = js ''Previous conversation:'' @ [LF]
     @ js ''User'' @ js '': '' @ replicate 1988 0x61 @ js ''...(truncated)'' @ [LF]
     @ js ''Assistant'' @ js '': '' @ replicate 984 0x62 @ js ''...(truncated)'' @ [LF]
     @ [LF]"
  by (simp add: buildConversationMemory_def DEFAULT_SETTINGS_def sliceFrom_def
      memoryLine_def slice0_def Let_def)

text \<open>
  Claim C8, amended. For every message list and memory budget, the memory is the
  header, the rendered lines of a prefix of the recent messages and a final newline.
  Each line is rendered from its message with the content capped at the larger of 500
  and half the remaining budget (rounded down), the truncation marker appended when
  the content is cut. A line is included only when the header and the lines included
  so far, together with it, stay within the budget; the first line that would exceed
  the budget is skipped and ends the inclusion.
\<close>

theorem buildConversationMemory_budget:
  assumes "sliceFrom messages (- (memoryTurns settings * 2)) = recent" and "recent \<noteq> []"
  shows "\<exists>ls. buildConversationMemory messages settings maxChars
             = js ''Previous conversation:'' @ [LF] @ concat ls @ [LF]
      \<and> length ls \<le> length recent
      \<and> (\<forall>i<length ls.
            ls ! i = memoryLine maxChars (23 + int (length (concat (take i ls)))) (recent ! i)
          \<and> 23 + int (length (concat (take (Suc i) ls))) \<le> maxChars)
      \<and> (length ls < length recent \<longrightarrow>
            maxChars < 23 + int (length (concat ls))
              + int (length (memoryLine maxChars (23 + int (length (concat ls))) (recent ! length ls))))
      \<and> (\<forall>t msg. memoryLine maxChars t msg =
            (if role msg = User then js ''User'' else js ''Assistant'') @ js '': ''
            @ (if int (length (content msg)) > max 500 ((maxChars - t) div 2)
               then take (nat (max 500 ((maxChars - t) div 2))) (content msg) @ js ''...(truncated)''
               else content msg)
            @ [LF])"
proof -
  let ?header = "js ''Previous conversation:'' @ [LF]"
  from assms have ne: "messages \<noteq> []"
    by (auto simp: sliceFrom_def)
  obtain t' ps' where loop: "memoryLoop maxChars recent (23, [?header]) = (t', ps')"
    by (cases "memoryLoop maxChars recent (23, [?header])") simp
  from memoryLoop_lines [OF loop] obtain ls where
    ls: "ps' = [?header] @ ls" "length ls \<le> length recent"
      "t' = 23 + int (length (concat ls))"
      "\<forall>i<length ls.
            ls ! i = memoryLine maxChars (23 + int (length (concat (take i ls)))) (recent ! i)
          \<and> 23 + int (length (concat (take (Suc i) ls))) \<le> maxChars"
      "length ls < length recent \<longrightarrow>
            maxChars < t' + int (length (memoryLine maxChars t' (recent ! length ls)))"
    by blast
  have "buildConversationMemory messages settings maxChars = ?header @ concat ls @ [LF]"
    using ne assms loop ls(1) by (simp add: buildConversationMemory_def Let_def)
  with ls(2-5) memoryLine_capped show ?thesis
    by (intro exI [of _ ls]) (simp add: add.assoc)
qed

theorem buildConversationMemory_budget_witness:
  "sliceFrom [\<lparr>role = User, content = js ''hi'', timestamp = 0\<rparr>,
              \<lparr>role = Assistant, content = js ''hello'', timestamp = 1\<rparr>]
     (- (memoryTurns DEFAULT_SETTINGS * 2))
     = [\<lparr>role = User, content = js ''hi'', timestamp = 0\<rparr>,
        \<lparr>role = Assistant, content = js ''hello'', timestamp = 1\<rparr>]
   \<and> (\<exists>ls. buildConversationMemory
               [\<lparr>role = User, content = js ''hi'', timestamp = 0\<rparr>,
                \<lparr>role = Assistant, content = js ''hello'', timestamp = 1\<rparr>]
               DEFAULT_SETTINGS 40
             = js ''Previous conversation:'' @ [LF] @ concat ls @ [LF]
          \<and> length ls \<le> 2)"
proof -
  let ?msgs = "[\<lparr>role = User, content = js ''hi'', timestamp = 0\<rparr>,
                \<lparr>role = Assistant, content = js ''hello'', timestamp = 1\<rparr>]"
  have sl: "sliceFrom ?msgs (- (memoryTurns DEFAULT_SETTINGS * 2)) = ?msgs"
    by (simp add: sliceFrom_def DEFAULT_SETTINGS_def)
  have ne: "?msgs \<noteq> []"
    by simp
  from buildConversationMemory_budget [OF sl ne, of 40] sl show ?thesis
    by auto
qed


section \<open>Line framing\<close>

lemma split_nl_not_Nil [simp]: "split_nl s \<noteq> []"
  by (induction s) (auto split: list.splits)

lemma split_nl_no_LF: "LF \<notin> set s \<Longrightarrow> split_nl s = [s]"
  by (induction s) auto

lemma split_nl_append:
  "split_nl (a @ b) = butlast (split_nl a) @ split_nl (last (split_nl a) @ b)"
proof (induction a)
  case Nil
  show ?case by simp
next
  case (Cons c a)
  show ?case
  proof (cases "c = LF")
    case True
    with Cons show ?thesis by simp
  next
    case False
    obtain l ls where sp: "split_nl a = l # ls"
      by (cases "split_nl a") simp_all
    show ?thesis
    proof (cases ls)
      case Nil
      with sp False Cons show ?thesis by simp
    next
      case (Cons l' ls')
      with sp False Cons.IH show ?thesis by simp
    qed
  qed
qed

lemma last_split_nl_no_LF: "LF \<notin> set (last (split_nl s))"
  by (induction s) (auto split: list.splits)

lemma butlast_split_nl_append:
  "butlast (split_nl (a @ b)) = butlast (split_nl a) @ butlast (split_nl (last (split_nl a) @ b))"
  by (subst split_nl_append) (simp add: butlast_append)

lemma last_split_nl_append:
  "last (split_nl (a @ b)) = last (split_nl (last (split_nl a) @ b))"
  by (subst split_nl_append) simp


lemma processLine_stdoutBuffer:
  "processLine parse (st\<lparr>stdoutBuffer := b\<rparr>) line =
     (case processLine parse st line of
        (st', calls, exit) \<Rightarrow> (st'\<lparr>stdoutBuffer := b\<rparr>, calls, exit))"
  by (auto simp: processLine_def Let_def split: option.splits)

lemma processLines_stdoutBuffer:
  "processLines parse (st\<lparr>stdoutBuffer := b\<rparr>) lines =
     (case processLines parse st lines of
        (st', calls, exit) \<Rightarrow> (st'\<lparr>stdoutBuffer := b\<rparr>, calls, exit))"
proof (induction lines arbitrary: st)
  case Nil
  show ?case by simp
next
  case (Cons l ls)
  show ?case
    by (simp add: processLine_stdoutBuffer Cons.IH split: prod.splits)
qed

text \<open>
  The lines after an exception are not read; when a list of lines is read to its end,
  the lines that follow are read from the state it leaves.
\<close>

lemma processLines_append:
  "processLines parse st (xs @ ys) =
     (case processLines parse st xs of
        (st1, c1, exit) \<Rightarrow>
          if exit = TypeError then (st1, c1, TypeError)
          else case processLines parse st1 ys of (st2, c2, exit') \<Rightarrow> (st2, c1 @ c2, exit'))"
proof (induction xs arbitrary: st)
  case Nil
  show ?case by (simp split: prod.splits)
next
  case (Cons l ls)
  obtain s1 c1 x1 where p: "processLine parse st l = (s1, c1, x1)"
    by (cases "processLine parse st l")
  show ?case
  proof (cases x1)
    case Normal
    with p Cons.IH [of s1] show ?thesis
      by (simp split: prod.splits)
  next
    case TypeError
    with p show ?thesis by simp
  qed
qed

lemma stdoutText_eq:
  "stdoutText parse st text =
     (case processLines parse st (butlast (split_nl (stdoutBuffer st @ text))) of
        (st', calls, exit) \<Rightarrow>
          (st'\<lparr>stdoutBuffer := last (split_nl (stdoutBuffer st @ text))\<rparr>, calls, exit))"
  by (simp add: stdoutText_def Let_def processLines_stdoutBuffer)

text \<open>
  A chunk cut in two: when the handler returns on the first part, the second part is
  handled from the state it leaves, with the same callbacks as for the whole chunk.
\<close>

lemma stdoutText_append:
  assumes "stdoutText parse st a = (st1, c1, Normal)"
  shows "stdoutText parse st (a @ b) =
     (case stdoutText parse st1 b of (st2, c2, exit) \<Rightarrow> (st2, c1 @ c2, exit))"
proof -
  let ?B = "stdoutBuffer st"
  let ?r = "last (split_nl (?B @ a))"
  obtain s1 where p1: "processLines parse st (butlast (split_nl (?B @ a))) = (s1, c1, Normal)"
    and st1: "st1 = s1\<lparr>stdoutBuffer := ?r\<rparr>"
    using assms by (auto simp: stdoutText_eq split: prod.splits)
  obtain s2 c2 x2 where p2: "processLines parse s1 (butlast (split_nl (?r @ b))) = (s2, c2, x2)"
    by (cases "processLines parse s1 (butlast (split_nl (?r @ b)))")
  have lhs: "stdoutText parse st (a @ b) = (s2\<lparr>stdoutBuffer := last (split_nl (?r @ b))\<rparr>, c1 @ c2, x2)"
    using p1 p2 butlast_split_nl_append [of "?B @ a" b] last_split_nl_append [of "?B @ a" b]
    by (simp add: stdoutText_eq processLines_append)
  have s2: "stdoutText parse st1 b = (s2\<lparr>stdoutBuffer := last (split_nl (?r @ b))\<rparr>, c2, x2)"
    using p2 by (simp add: st1 stdoutText_eq processLines_stdoutBuffer)
  from lhs s2 show ?thesis by simp
qed

lemma stdoutText_prefix_Normal:
  assumes "snd (snd (stdoutText parse st (a @ b))) = Normal"
  shows "snd (snd (stdoutText parse st a)) = Normal"
proof -
  let ?B = "stdoutBuffer st"
  obtain s1 c1 x1 where p1: "processLines parse st (butlast (split_nl (?B @ a))) = (s1, c1, x1)"
    by (cases "processLines parse st (butlast (split_nl (?B @ a)))")
  have "x1 = Normal"
  proof (cases x1)
    case Normal
    then show ?thesis .
  next
    case TypeError
    with p1 butlast_split_nl_append [of "?B @ a" b] assms show ?thesis
      by (simp add: stdoutText_eq processLines_append)
  qed
  with p1 show ?thesis
    by (simp add: stdoutText_eq)
qed

lemma stdoutText_Nil:
  "LF \<notin> set (stdoutBuffer st) \<Longrightarrow> stdoutText parse st [] = (st, [], Normal)"
  by (simp add: stdoutText_eq split_nl_no_LF)

lemma stdoutText_buffer_no_LF: "LF \<notin> set (stdoutBuffer (fst (stdoutText parse st text)))"
  by (simp add: stdoutText_eq last_split_nl_no_LF split: prod.splits)

lemma processLine_stderrBuffer:
  "processLine parse (st\<lparr>stderrBuffer := b\<rparr>) line =
     (case processLine parse st line of
        (st', calls, exit) \<Rightarrow> (st'\<lparr>stderrBuffer := b\<rparr>, calls, exit))"
  by (auto simp: processLine_def Let_def split: option.splits)

lemma processLines_stderrBuffer:
  "processLines parse (st\<lparr>stderrBuffer := b\<rparr>) lines =
     (case processLines parse st lines of
        (st', calls, exit) \<Rightarrow> (st'\<lparr>stderrBuffer := b\<rparr>, calls, exit))"
proof (induction lines arbitrary: st)
  case Nil
  show ?case by simp
next
  case (Cons l ls)
  show ?case
    by (simp add: processLine_stderrBuffer Cons.IH split: prod.splits)
qed

lemma stdoutText_stderrBuffer:
  "stdoutText parse (st\<lparr>stderrBuffer := b\<rparr>) text =
     (case stdoutText parse st text of
        (st', calls, exit) \<Rightarrow> (st'\<lparr>stderrBuffer := b\<rparr>, calls, exit))"
  by (simp add: stdoutText_eq processLines_stderrBuffer split: prod.splits)

lemma stderrBuffer_processLine:
  "stderrBuffer (fst (processLine parse st line)) = stderrBuffer st"
  by (auto simp: processLine_def Let_def split: option.splits)

lemma stderrBuffer_processLines:
  "stderrBuffer (fst (processLines parse st lines)) = stderrBuffer st"
proof (induction lines arbitrary: st)
  case Nil
  show ?case by simp
next
  case (Cons l ls)
  obtain st1 c1 x1 where p: "processLine parse st l = (st1, c1, x1)"
    by (cases "processLine parse st l")
  with stderrBuffer_processLine [of parse st l] have b1: "stderrBuffer st1 = stderrBuffer st"
    by simp
  obtain st2 c2 x2 where q: "processLines parse st1 ls = (st2, c2, x2)"
    by (cases "processLines parse st1 ls")
  with Cons.IH [of st1] b1 have "stderrBuffer st2 = stderrBuffer st"
    by simp
  with p q b1 show ?case
    by simp
qed

lemma stderrBuffer_stdoutText:
  "stderrBuffer (fst (stdoutText parse st text)) = stderrBuffer st"
  using stderrBuffer_processLines [of parse st "butlast (split_nl (stdoutBuffer st @ text))"]
  by (auto simp: stdoutText_eq split: prod.splits)

text \<open>
  When no \<open>data\<close> handler throws, the events of a session amount to one stdout chunk
  holding all the decoded stdout text, and the decoded stderr text appended to the
  stderr buffer; and no \<open>data\<close> handler throws when the handler of that one chunk does
  not.
\<close>

lemma runEvents_eq:
  assumes "LF \<notin> set (stdoutBuffer st)"
    and "snd (snd (runEvents parse st events)) = Normal
       \<or> snd (snd (stdoutText parse st (stdoutTextOf events))) = Normal"
  shows "runEvents parse st events =
     (case stdoutText parse st (stdoutTextOf events) of
        (st', calls, exit) \<Rightarrow>
          (st'\<lparr>stderrBuffer := stderrBuffer st @ stderrTextOf events\<rparr>, calls, exit))"
  using assms
proof (induction events arbitrary: st)
  case Nil
  from stdoutText_Nil [OF Nil(1), of parse] show ?case by simp
next
  case (Cons e es)
  show ?case
  proof (cases e)
    case (StdoutData d)
    let ?a = "TextDecoder_decode d"
    obtain s1 c1 x1 where p: "stdoutText parse st ?a = (s1, c1, x1)"
      by (cases "stdoutText parse st ?a")
    have x1: "x1 = Normal"
    proof -
      from Cons.prems(2) show ?thesis
      proof
        assume "snd (snd (runEvents parse st (e # es))) = Normal"
        with StdoutData p show ?thesis
          by (cases x1) (simp_all add: stdoutData_def split: prod.splits)
      next
        assume "snd (snd (stdoutText parse st (stdoutTextOf (e # es)))) = Normal"
        with StdoutData stdoutText_prefix_Normal [of parse st ?a "stdoutTextOf es"] p
        show ?thesis by simp
      qed
    qed
    note app = stdoutText_append [OF p [unfolded x1], of "stdoutTextOf es"]
    from p stdoutText_buffer_no_LF [of parse st ?a]
    have nolf: "LF \<notin> set (stdoutBuffer s1)" by simp
    from p stderrBuffer_stdoutText [of parse st ?a]
    have eb: "stderrBuffer s1 = stderrBuffer st" by simp
    have "snd (snd (runEvents parse s1 es)) = Normal
        \<or> snd (snd (stdoutText parse s1 (stdoutTextOf es))) = Normal"
    proof -
      from Cons.prems(2) show ?thesis
      proof
        assume "snd (snd (runEvents parse st (e # es))) = Normal"
        with StdoutData p x1 show ?thesis
          by (simp add: stdoutData_def split: prod.splits)
      next
        assume "snd (snd (stdoutText parse st (stdoutTextOf (e # es)))) = Normal"
        with StdoutData app show ?thesis
          by (simp split: prod.splits)
      qed
    qed
    from Cons.IH [OF nolf this] p x1 eb StdoutData app show ?thesis
      by (simp add: stdoutData_def split: prod.splits)
  next
    case (StderrData d)
    from Cons.prems(1) have nolf: "LF \<notin> set (stdoutBuffer (stderrData st d))"
      by (simp add: stderrData_def)
    from Cons.prems(2) StderrData
    have "snd (snd (runEvents parse (stderrData st d) es)) = Normal
        \<or> snd (snd (stdoutText parse (stderrData st d) (stdoutTextOf es))) = Normal"
      by (auto simp: stderrData_def stdoutText_stderrBuffer split: prod.splits)
    from Cons.IH [OF nolf this] StderrData show ?thesis
      by (simp add: stderrData_def stdoutText_stderrBuffer split: prod.splits)
  qed
qed

lemma stdoutText_newSession:
  "stdoutText parse newSession text =
     (case processLines parse newSession (completeLines text) of
        (st', calls, exit) \<Rightarrow> (st'\<lparr>stdoutBuffer := last (split_nl text)\<rparr>, calls, exit))"
  by (simp add: stdoutText_eq completeLines_def newSession_def)

subsection \<open>Counting the completion callbacks\<close>

lemma completions_processLine:
  "length (filter isCompletion (fst (snd (processLine parse st line))))
     = (if errorRecordLine parse line then 1 else 0)"
  by (auto simp: processLine_def errorRecordLine_def getProp_def Let_def
      split: option.splits prod.splits)

lemma completions_processLines:
  "snd (snd (processLines parse st lines)) = Normal \<Longrightarrow>
   length (filter isCompletion (fst (snd (processLines parse st lines))))
     = length (filter (errorRecordLine parse) lines)"
proof (induction lines arbitrary: st)
  case Nil
  show ?case by simp
next
  case (Cons l ls)
  obtain st1 c1 x1 where p: "processLine parse st l = (st1, c1, x1)"
    by (cases "processLine parse st l")
  obtain st2 c2 x2 where q: "processLines parse st1 ls = (st2, c2, x2)"
    by (cases "processLines parse st1 ls")
  from Cons.prems p q have x: "x1 = Normal" "x2 = Normal"
    by (cases x1; simp)+
  from completions_processLine [of parse st l] p
  have c1: "length (filter isCompletion c1) = (if errorRecordLine parse l then 1 else 0)"
    by simp
  from Cons.IH [of st1] q x
  have c2: "length (filter isCompletion c2) = length (filter (errorRecordLine parse) ls)"
    by simp
  from p q x c1 c2 show ?case by simp
qed

lemma completions_catchBranch:
  "filter isCompletion calls = [] \<Longrightarrow> filter isCompletion (fst (snd (catchBranch st calls))) = []"
  by (simp add: catchBranch_def split: option.splits)

lemma completions_finalPass:
  "filter isCompletion (fst (snd (finalPass parse st))) = []"
  by (simp add: finalPass_def completions_catchBranch split: option.splits)

lemma completions_closeHandler:
  "snd (snd (closeHandler parse st code)) \<noteq> Pending \<Longrightarrow>
   length (filter isCompletion (fst (snd (closeHandler parse st code)))) = 1"
proof -
  assume a: "snd (snd (closeHandler parse st code)) \<noteq> Pending"
  obtain s c x where f: "finalPass parse st = (s, c, x)"
    by (cases "finalPass parse st")
  with completions_finalPass [of parse st] have "filter isCompletion c = []"
    by simp
  with f a show ?thesis
    by (cases x) (simp_all add: closeHandler_def split: option.splits)
qed


section \<open>Decoding ASCII\<close>

lemma utf8Decode_ascii:
  "\<forall>b\<in>set as. b \<le> 0x7F \<Longrightarrow>
   utf8Decode 0 0 0x80 0xBF (as @ bs) = map unat as @ utf8Decode 0 0 0x80 0xBF bs"
  by (induction as) simp_all

lemma ascii_le: "of_char c < (128::nat) \<Longrightarrow> (word_of_nat (of_char c) :: 8 word) \<le> 0x7F"
  by (simp add: word_le_nat_alt unat_of_nat)

lemma concat_utf16_ascii:
  "\<forall>c\<in>set s. of_char c < (128::nat) \<Longrightarrow>
   concat (map utf16 (map unat (ascii s))) = js s"
  by (induction s) (simp_all add: ascii_def js_def utf16_def unat_of_nat)

text \<open>
  Bytes after an ASCII text are decoded on their own: an ASCII byte leaves the decoder
  in its initial state.
\<close>

lemma decode_ascii_prefix:
  assumes "\<forall>c\<in>set s. of_char c < (128::nat)" and "s \<noteq> []"
  shows "TextDecoder_decode (ascii s @ bs) = js s @ concat (map utf16 (utf8Decode 0 0 0x80 0xBF bs))"
proof -
  from assms(1) have le: "\<forall>b\<in>set (ascii s). b \<le> 0x7F"
    by (auto simp: ascii_def ascii_le)
  let ?cps = "map unat (ascii s) @ utf8Decode 0 0 0x80 0xBF bs"
  have dec: "utf8Decode 0 0 0x80 0xBF (ascii s @ bs) = ?cps"
    by (rule utf8Decode_ascii [OF le])
  have nobom: "(case ?cps of [] \<Rightarrow> [] | cp # rest \<Rightarrow> if cp = 0xFEFF then rest else ?cps) = ?cps"
    using assms by (cases s) (auto simp: ascii_def unat_of_nat)
  show ?thesis
    unfolding TextDecoder_decode_def Let_def dec nobom
    using concat_utf16_ascii [OF assms(1)] by simp
qed

lemma TextDecoder_decode_ascii:
  assumes "\<forall>c\<in>set s. of_char c < (128::nat)"
  shows "TextDecoder_decode (ascii s) = js s"
proof (cases "s = []")
  case True
  then show ?thesis
    by (simp add: TextDecoder_decode_def ascii_def)
next
  case False
  from decode_ascii_prefix [OF assms False, of "[]"] show ?thesis
    by simp
qed

lemma decode_line:
  assumes "\<forall>c\<in>set s. of_char c < (128::nat)"
  shows "TextDecoder_decode (ascii (s @ ''\<newline>'')) = js s @ [LF]"
proof -
  from assms have "\<forall>c\<in>set (s @ ''\<newline>''). of_char c < (128::nat)"
    by simp
  from TextDecoder_decode_ascii [OF this] show ?thesis
    by (simp add: js_append js_LF)
qed


section \<open>Sessions as functions of the decoded text\<close>

lemma split_nl_line: "LF \<notin> set a \<Longrightarrow> split_nl (a @ LF # b) = a # split_nl b"
  by (induction a) auto

lemma completeLines_line: "LF \<notin> set l \<Longrightarrow> completeLines (l @ [LF]) = [l]"
  by (simp add: completeLines_def split_nl_line)

lemma last_split_line: "LF \<notin> set l \<Longrightarrow> last (split_nl (l @ [LF])) = []"
  by (simp add: split_nl_line)

lemma completeLines_no_LF: "LF \<notin> set l \<Longrightarrow> completeLines l = []"
  by (simp add: completeLines_def split_nl_no_LF)

lemma last_split_no_LF: "LF \<notin> set l \<Longrightarrow> last (split_nl l) = l"
  by (simp add: split_nl_no_LF)

text \<open>
  A chunk that brings no line terminator is only appended to the buffer: nothing is
  decoded and no callback is invoked.
\<close>

lemma stdoutText_no_LF:
  "LF \<notin> set (stdoutBuffer st @ text) \<Longrightarrow>
   stdoutText parse st text = (st\<lparr>stdoutBuffer := stdoutBuffer st @ text\<rparr>, [], Normal)"
  by (simp add: stdoutText_eq split_nl_no_LF)

text \<open>
  When the complete lines of the decoded stdout text are read to the end, the session
  depends on its stdout chunks only through the concatenation of their decoded texts:
  the complete lines of that text are processed in order, and what follows the last
  terminator is left to the close handler.
\<close>

lemma sendMessage_eq:
  assumes "processLines parse newSession (completeLines (stdoutTextOf events)) = (st, calls, Normal)"
  shows "sendMessage parse events code =
     (case closeHandler parse
             (st\<lparr>stdoutBuffer := last (split_nl (stdoutTextOf events)),
                 stderrBuffer := stderrTextOf events\<rparr>) code of
        (st', calls', outcome) \<Rightarrow> (calls @ calls', outcome))"
proof -
  have nolf: "LF \<notin> set (stdoutBuffer newSession)"
    by (simp add: newSession_def)
  have e: "stderrBuffer newSession = []"
    by (simp add: newSession_def)
  from assms have "snd (snd (stdoutText parse newSession (stdoutTextOf events))) = Normal"
    by (simp add: stdoutText_newSession)
  then have "runEvents parse newSession events =
     (case stdoutText parse newSession (stdoutTextOf events) of
        (st', calls, exit) \<Rightarrow>
          (st'\<lparr>stderrBuffer := stderrBuffer newSession @ stderrTextOf events\<rparr>, calls, exit))"
    by (intro runEvents_eq [OF nolf]) simp
  with assms show ?thesis
    by (simp add: sendMessage_def stdoutText_newSession e split: prod.splits)
qed

text \<open>
  So two deliveries of stdout and stderr whose decoded texts agree give the same
  callbacks and the same outcome, wherever the chunk boundaries fall in the text, when
  no line of the text ends the loop with an exception.
\<close>

lemma sendMessage_same_text:
  assumes "stdoutTextOf events = stdoutTextOf events'"
    and "stderrTextOf events = stderrTextOf events'"
    and "snd (snd (processLines parse newSession (completeLines (stdoutTextOf events)))) = Normal"
  shows "sendMessage parse events code = sendMessage parse events' code"
proof -
  obtain st calls where
    p: "processLines parse newSession (completeLines (stdoutTextOf events)) = (st, calls, Normal)"
    using assms(3) by (cases "processLines parse newSession (completeLines (stdoutTextOf events))") simp
  then have p': "processLines parse newSession (completeLines (stdoutTextOf events')) = (st, calls, Normal)"
    using assms(1) by simp
  show ?thesis
    unfolding sendMessage_eq [OF p] sendMessage_eq [OF p'] using assms by simp
qed


section \<open>The example records\<close>

lemma line_no_LF:
  "LF \<notin> set (js agentMessageLine)" "LF \<notin> set (js turnFailedLine)"
  "LF \<notin> set (js cafePrefix)" "LF \<notin> set (js cafeSuffix)"
  by (simp_all add: LF_in_js agentMessageLine_def turnFailedLine_def cafePrefix_def cafeSuffix_def)

lemma line_not_Nil: "agentMessageLine \<noteq> []" "turnFailedLine \<noteq> []" "cafePrefix \<noteq> []"
  by (simp_all add: agentMessageLine_def turnFailedLine_def cafePrefix_def)

lemma decode_agentMessageLine:
  "TextDecoder_decode (ascii (agentMessageLine @ ''\<newline>'')) = js agentMessageLine @ [LF]"
  "TextDecoder_decode (ascii agentMessageLine) = js agentMessageLine"
  by (rule decode_line, simp add: agentMessageLine_def)
     (rule TextDecoder_decode_ascii, simp add: agentMessageLine_def)

lemma decode_turnFailedLine:
  "TextDecoder_decode (ascii (turnFailedLine @ ''\<newline>'')) = js turnFailedLine @ [LF]"
  "TextDecoder_decode (ascii turnFailedLine) = js turnFailedLine"
  by (rule decode_line, simp add: turnFailedLine_def)
     (rule TextDecoder_decode_ascii, simp add: turnFailedLine_def)

lemma trim_agentMessageLine: "trim (js agentMessageLine) = js agentMessageLine"
  by code_simp

lemma parse_agentMessageLine:
  "JSON_parse (js agentMessageLine) = Some (agentMessage (js ''Hi there''))"
  by code_simp

lemma trim_turnFailedLine: "trim (js turnFailedLine) = js turnFailedLine"
  by code_simp

lemma parse_turnFailedLine: "JSON_parse (js turnFailedLine) = Some turnFailedEvent"
  by code_simp

lemma getProp_agentMessage:
  "getProp (agentMessage t) ''type'' = Some (JStr (js ''item.completed''))"
  "getProp (agentMessage t) ''item''
     = Some (JObj [(js ''type'', JStr (js ''agent_message'')), (js ''text'', JStr t)])"
  "getProp (agentMessage t) ''usage'' = None"
  by (simp_all add: getProp_def agentMessage_def)

lemma agentMessageText_agentMessage: "t \<noteq> [] \<Longrightarrow> agentMessageText (agentMessage t) = Some (JStr t)"
  by (simp add: agentMessageText_def getProp_agentMessage optChain_def) (simp add: getProp_def)

lemma agentMessage_not_null: "agentMessage t \<noteq> JNull"
  by (simp add: agentMessage_def)

lemma processLine_agentMessage:
  assumes "trim line = line" and "line \<noteq> []" and "parse line = Some (agentMessage t)" and "t \<noteq> []"
  shows "processLine parse st line
       = (st\<lparr>fullText := JStr t\<rparr>, [OnEvent (agentMessage t), OnTextChunk (JStr t)], Normal)"
  using assms
  by (simp add: processLine_def Let_def agentMessageText_agentMessage agentMessage_not_null
      getProp_agentMessage)

lemma finalPass_agentMessage:
  assumes "trim (stdoutBuffer st) = stdoutBuffer st" and "stdoutBuffer st \<noteq> []"
    and "parse (stdoutBuffer st) = Some (agentMessage t)" and "t \<noteq> []"
  shows "finalPass parse st = (st\<lparr>fullText := JStr t\<rparr>, [OnEvent (agentMessage t)], Normal)"
  using assms by (simp add: finalPass_def agentMessageText_agentMessage agentMessage_not_null)

lemma getProp_turnFailedEvent:
  "getProp turnFailedEvent ''type'' = Some (JStr (js ''turn.failed''))"
  "getProp turnFailedEvent ''item'' = None"
  "getProp turnFailedEvent ''usage'' = None"
  "getProp turnFailedEvent ''error'' = Some (JObj [(js ''message'', JStr (js ''boom''))])"
  by (simp_all add: getProp_def turnFailedEvent_def)

lemma turnFailedEvent_facts:
  "turnFailedEvent \<noteq> JNull" "agentMessageText turnFailedEvent = None"
  "errorMessage turnFailedEvent = JStr (js ''boom'')"
  by (simp add: turnFailedEvent_def)
     (simp_all add: agentMessageText_def errorMessage_def getProp_turnFailedEvent optChain_def
       coalesce_def, simp_all add: getProp_def)

lemma processLine_turnFailedLine:
  "processLine JSON_parse st (js turnFailedLine)
     = (st, [OnEvent turnFailedEvent, OnError (JStr (js ''boom''))], Normal)"
  by (simp add: processLine_def Let_def trim_turnFailedLine parse_turnFailedLine line_not_Nil
      turnFailedEvent_facts getProp_turnFailedEvent)

lemma finalPass_turnFailedLine:
  "stdoutBuffer st = js turnFailedLine \<Longrightarrow>
   finalPass JSON_parse st = (st, [OnEvent turnFailedEvent], Normal)"
  by (simp add: finalPass_def trim_turnFailedLine parse_turnFailedLine line_not_Nil
      turnFailedEvent_facts)

lemma close_no_leftover:
  "stdoutBuffer st = [] \<Longrightarrow>
   closeHandler parse st (Some 0) = (st, [OnComplete (fullText st) (lastUsage st)], Resolved)"
  by (simp add: closeHandler_def finalPass_def trim_Nil)

text \<open>
  A session whose stdout text is one terminated line, and a session whose stdout text
  has no terminator.
\<close>

lemma session_one_line:
  assumes "stdoutTextOf events = l @ [LF]" and "LF \<notin> set l"
    and "processLine parse newSession l = (st, calls, Normal)"
  shows "sendMessage parse events code =
     (case closeHandler parse (st\<lparr>stdoutBuffer := [], stderrBuffer := stderrTextOf events\<rparr>) code of
        (st', calls', outcome) \<Rightarrow> (calls @ calls', outcome))"
proof -
  have "processLines parse newSession (completeLines (stdoutTextOf events)) = (st, calls, Normal)"
    using assms by (simp add: completeLines_line)
  from sendMessage_eq [OF this] assms(1,2) show ?thesis
    by (simp add: last_split_line)
qed

lemma session_no_line:
  assumes "LF \<notin> set (stdoutTextOf events)"
  shows "sendMessage parse events code =
     (case closeHandler parse
             (newSession\<lparr>stdoutBuffer := stdoutTextOf events, stderrBuffer := stderrTextOf events\<rparr>)
             code of
        (st', calls', outcome) \<Rightarrow> (calls', outcome))"
proof -
  have "processLines parse newSession (completeLines (stdoutTextOf events)) = (newSession, [], Normal)"
    using assms by (simp add: completeLines_no_LF)
  from sendMessage_eq [OF this] assms show ?thesis
    by (simp add: last_split_no_LF)
qed

text \<open>The line of the assistant message, terminated and not terminated, then exit status 0.\<close>

lemma session_agentMessage:
  "sendMessage JSON_parse [StdoutData (ascii (agentMessageLine @ ''\<newline>''))] (Some 0)
   = ([OnEvent (agentMessage (js ''Hi there'')), OnTextChunk (JStr (js ''Hi there'')),
       OnComplete (JStr (js ''Hi there'')) None],
      Resolved)"
proof -
  have pl: "processLine JSON_parse newSession (js agentMessageLine)
      = (newSession\<lparr>fullText := JStr (js ''Hi there'')\<rparr>,
         [OnEvent (agentMessage (js ''Hi there'')), OnTextChunk (JStr (js ''Hi there''))], Normal)"
    using trim_agentMessageLine parse_agentMessageLine line_not_Nil
    by (intro processLine_agentMessage) simp_all
  have d: "stdoutTextOf [StdoutData (ascii (agentMessageLine @ ''\<newline>''))] = js agentMessageLine @ [LF]"
    by (simp add: decode_agentMessageLine)
  show ?thesis
    unfolding session_one_line [OF d line_no_LF(1) pl]
    by (simp add: close_no_leftover) (simp add: newSession_def)
qed

lemma session_agentMessage_unterminated:
  "sendMessage JSON_parse [StdoutData (ascii agentMessageLine)] (Some 0)
   = ([OnEvent (agentMessage (js ''Hi there'')), OnComplete (JStr (js ''Hi there'')) None], Resolved)"
proof -
  let ?st = "newSession\<lparr>stdoutBuffer := js agentMessageLine, stderrBuffer := []\<rparr>"
  have fp: "finalPass JSON_parse ?st
      = (?st\<lparr>fullText := JStr (js ''Hi there'')\<rparr>, [OnEvent (agentMessage (js ''Hi there''))], Normal)"
    using trim_agentMessageLine parse_agentMessageLine line_not_Nil
    by (intro finalPass_agentMessage) simp_all
  have d: "stdoutTextOf [StdoutData (ascii agentMessageLine)] = js agentMessageLine"
    by (simp add: decode_agentMessageLine)
  have n: "LF \<notin> set (stdoutTextOf [StdoutData (ascii agentMessageLine)])"
    unfolding d by (rule line_no_LF)
  show ?thesis
    unfolding session_no_line [OF n] d
    by (simp add: closeHandler_def fp) (simp add: newSession_def)
qed

text \<open>The line of the failed turn, terminated and not terminated, then exit status 0.\<close>

lemma session_turnFailed:
  "sendMessage JSON_parse [StdoutData (ascii (turnFailedLine @ ''\<newline>''))] (Some 0)
   = ([OnEvent turnFailedEvent, OnError (JStr (js ''boom'')), OnComplete (JStr []) None], Resolved)"
proof -
  have d: "stdoutTextOf [StdoutData (ascii (turnFailedLine @ ''\<newline>''))] = js turnFailedLine @ [LF]"
    by (simp add: decode_turnFailedLine)
  show ?thesis
    unfolding session_one_line [OF d line_no_LF(2) processLine_turnFailedLine]
    by (simp add: close_no_leftover) (simp add: newSession_def)
qed

lemma session_turnFailed_unterminated:
  "sendMessage JSON_parse [StdoutData (ascii turnFailedLine)] (Some 0)
   = ([OnEvent turnFailedEvent, OnComplete (JStr []) None], Resolved)"
proof -
  have d: "stdoutTextOf [StdoutData (ascii turnFailedLine)] = js turnFailedLine"
    by (simp add: decode_turnFailedLine)
  have n: "LF \<notin> set (stdoutTextOf [StdoutData (ascii turnFailedLine)])"
    unfolding d by (rule line_no_LF)
  show ?thesis
    unfolding session_no_line [OF n] d
    by (simp add: closeHandler_def finalPass_turnFailedLine) (simp add: newSession_def)
qed

text \<open>A line of plain text with leading blanks.\<close>

lemma trim_indented: "trim (js ''  hi'') = js ''hi''"
  by code_simp

lemma parse_plain: "JSON_parse (js ''hi'') = None"
  by code_simp

lemma trim_blank: "trim (js ''   '') = []"
  by code_simp

lemma processLine_indented:
  "processLine JSON_parse newSession (js ''  hi'')
     = (newSession\<lparr>fullText := JStr (js ''hi'' @ [LF])\<rparr>, [OnTextChunk (JStr (js ''hi'' @ [LF]))], Normal)"
  by (simp add: processLine_def Let_def trim_indented parse_plain) (simp add: newSession_def)

lemma session_indented:
  "sendMessage JSON_parse [StdoutData (ascii ''  hi\<newline>'')] (Some 0)
   = ([OnTextChunk (JStr (js ''hi'' @ [LF])), OnComplete (JStr (js ''hi'' @ [LF])) None], Resolved)"
proof -
  have "TextDecoder_decode (ascii (''  hi'' @ ''\<newline>'')) = js ''  hi'' @ [LF]"
    by (rule decode_line) simp
  then have d: "stdoutTextOf [StdoutData (ascii ''  hi\<newline>'')] = js ''  hi'' @ [LF]"
    by simp
  have n: "LF \<notin> set (js ''  hi'')"
    by (simp add: LF_in_js)
  show ?thesis
    unfolding session_one_line [OF d n processLine_indented]
    by (simp add: close_no_leftover) (simp add: newSession_def)
qed

text \<open>
  The message \<open>caf\<close>, U+00E9: its last character is the two bytes C3 A9 in UTF-8. In one
  chunk they decode to U+00E9; apart, each decodes to U+FFFD.
\<close>

lemma decode_cafe:
  "TextDecoder_decode (ascii cafePrefix @ [0xC3]) = js cafePrefix @ [0xFFFD]"
  "TextDecoder_decode (0xA9 # ascii (cafeSuffix @ ''\<newline>'')) = 0xFFFD # js cafeSuffix @ [LF]"
  "TextDecoder_decode (ascii cafePrefix @ 0xC3 # 0xA9 # ascii (cafeSuffix @ ''\<newline>''))
     = js cafePrefix @ 0xE9 # js cafeSuffix @ [LF]"
proof -
  show "TextDecoder_decode (ascii cafePrefix @ [0xC3]) = js cafePrefix @ [0xFFFD]"
    by (subst decode_ascii_prefix) (simp_all add: cafePrefix_def utf16_def)
  show "TextDecoder_decode (0xA9 # ascii (cafeSuffix @ ''\<newline>'')) = 0xFFFD # js cafeSuffix @ [LF]"
    by (simp add: TextDecoder_decode_def cafeSuffix_def ascii_def utf16_def js_def LF_def)
  show "TextDecoder_decode (ascii cafePrefix @ 0xC3 # 0xA9 # ascii (cafeSuffix @ ''\<newline>''))
     = js cafePrefix @ 0xE9 # js cafeSuffix @ [LF]"
    by (subst decode_ascii_prefix)
       (simp_all add: cafePrefix_def cafeSuffix_def ascii_def utf16_def js_def LF_def)
qed

lemma parse_cafe:
  "JSON_parse (js cafePrefix @ 0xFFFD # 0xFFFD # js cafeSuffix)
     = Some (agentMessage (js ''caf'' @ [0xFFFD, 0xFFFD]))"
  "JSON_parse (js cafePrefix @ 0xE9 # js cafeSuffix) = Some (agentMessage (js ''caf'' @ [0xE9]))"
  by code_simp+

lemma trim_cafe:
  "trim (js cafePrefix @ 0xFFFD # 0xFFFD # js cafeSuffix) = js cafePrefix @ 0xFFFD # 0xFFFD # js cafeSuffix"
  "trim (js cafePrefix @ 0xE9 # js cafeSuffix) = js cafePrefix @ 0xE9 # js cafeSuffix"
  by code_simp+

lemma session_cafe_split:
  "sendMessage JSON_parse
     [StdoutData (ascii cafePrefix @ [0xC3]), StdoutData (0xA9 # ascii (cafeSuffix @ ''\<newline>''))]
     (Some 0)
   = ([OnEvent (agentMessage (js ''caf'' @ [0xFFFD, 0xFFFD])),
       OnTextChunk (JStr (js ''caf'' @ [0xFFFD, 0xFFFD])),
       OnComplete (JStr (js ''caf'' @ [0xFFFD, 0xFFFD])) None],
      Resolved)"
proof -
  let ?l = "js cafePrefix @ 0xFFFD # 0xFFFD # js cafeSuffix"
  have decoded: "stdoutTextOf [StdoutData (ascii cafePrefix @ [0xC3]),
        StdoutData (0xA9 # ascii (cafeSuffix @ ''\<newline>''))] = ?l @ [LF]"
    by (simp add: decode_cafe)
  have ne: "(0xFFFD::jschar) \<noteq> LF"
    by (simp add: LF_def)
  have nolf: "LF \<notin> set ?l"
    using ne line_no_LF by auto
  have pl: "processLine JSON_parse newSession ?l
      = (newSession\<lparr>fullText := JStr (js ''caf'' @ [0xFFFD, 0xFFFD])\<rparr>,
         [OnEvent (agentMessage (js ''caf'' @ [0xFFFD, 0xFFFD])),
          OnTextChunk (JStr (js ''caf'' @ [0xFFFD, 0xFFFD]))], Normal)"
    using trim_cafe parse_cafe
    by (intro processLine_agentMessage) simp_all
  show ?thesis
    unfolding session_one_line [OF decoded nolf pl]
    by (simp add: close_no_leftover) (simp add: newSession_def)
qed

lemma session_cafe_whole:
  "sendMessage JSON_parse
     [StdoutData (ascii cafePrefix @ 0xC3 # 0xA9 # ascii (cafeSuffix @ ''\<newline>''))]
     (Some 0)
   = ([OnEvent (agentMessage (js ''caf'' @ [0xE9])),
       OnTextChunk (JStr (js ''caf'' @ [0xE9])),
       OnComplete (JStr (js ''caf'' @ [0xE9])) None],
      Resolved)"
proof -
  let ?l = "js cafePrefix @ 0xE9 # js cafeSuffix"
  have decoded: "stdoutTextOf
      [StdoutData (ascii cafePrefix @ 0xC3 # 0xA9 # ascii (cafeSuffix @ ''\<newline>''))] = ?l @ [LF]"
    by (simp add: decode_cafe)
  have ne: "(0xE9::jschar) \<noteq> LF"
    by (simp add: LF_def)
  have nolf: "LF \<notin> set ?l"
    using ne line_no_LF by auto
  have pl: "processLine JSON_parse newSession ?l
      = (newSession\<lparr>fullText := JStr (js ''caf'' @ [0xE9])\<rparr>,
         [OnEvent (agentMessage (js ''caf'' @ [0xE9])), OnTextChunk (JStr (js ''caf'' @ [0xE9]))],
         Normal)"
    using trim_cafe parse_cafe
    by (intro processLine_agentMessage) simp_all
  show ?thesis
    unfolding session_one_line [OF decoded nolf pl]
    by (simp add: close_no_leftover) (simp add: newSession_def)
qed


section \<open>Values outside the interfaces\<close>

text \<open>
  A line that is the JSON value \<open>null\<close>. In the data handler \<open>onEvent\<close> receives it and
  the \<open>TypeError\<close> of \<open>event.item\<close> ends the loop: the line of a failed turn that follows
  in the same chunk is not read. Left in the buffer at close, \<open>null\<close> is passed to
  \<open>onEvent\<close> and the \<open>TypeError\<close> is caught: the text \<open>null\<close> is appended to the output and
  passed to \<open>onTextChunk\<close>.
\<close>

lemma processLine_null:
  "trim line \<noteq> [] \<Longrightarrow> parse (trim line) = Some JNull \<Longrightarrow>
   processLine parse st line = (st, [OnEvent JNull], TypeError)"
  by (simp add: processLine_def Let_def)

lemma trim_null: "trim (js ''null'') = js ''null''"
  by code_simp

lemma parse_null: "JSON_parse (js ''null'') = Some JNull"
  by code_simp

lemma session_null_then_turnFailed:
  "sendMessage JSON_parse [StdoutData (ascii (''null'' @ ''\<newline>'' @ turnFailedLine @ ''\<newline>''))] (Some 0)
   = ([OnEvent JNull, OnComplete (JStr []) None], Resolved)"
proof -
  have "TextDecoder_decode (ascii (''null'' @ ''\<newline>'' @ turnFailedLine @ ''\<newline>''))
      = js (''null'' @ ''\<newline>'' @ turnFailedLine @ ''\<newline>'')"
    by (rule TextDecoder_decode_ascii) (simp add: turnFailedLine_def)
  then have d: "TextDecoder_decode (ascii (''null'' @ ''\<newline>'' @ turnFailedLine @ ''\<newline>''))
      = js ''null'' @ LF # js turnFailedLine @ [LF]"
    by (simp only: js_append js_LF) simp
  have n: "LF \<notin> set (js ''null'')"
    by (simp add: LF_in_js)
  have sp: "split_nl (js ''null'' @ LF # js turnFailedLine @ [LF]) = [js ''null'', js turnFailedLine, []]"
    using split_nl_line [OF n, of "js turnFailedLine @ [LF]"] split_nl_line [OF line_no_LF(2), of "[]"]
    by simp
  have ne: "js ''null'' \<noteq> []"
    by simp
  have pl: "processLine JSON_parse st (js ''null'') = (st, [OnEvent JNull], TypeError)" for st
    by (rule processLine_null) (simp_all add: trim_null parse_null)
  have run: "runEvents JSON_parse newSession
      [StdoutData (ascii (''null'' @ ''\<newline>'' @ turnFailedLine @ ''\<newline>''))]
      = (newSession, [OnEvent JNull], TypeError)"
    unfolding runEvents.simps stdoutData_def d stdoutText_eq
    by (simp add: newSession_def sp pl)
  show ?thesis
    unfolding sendMessage_def run
    by (simp add: close_no_leftover newSession_def)
qed

lemma session_null_unterminated:
  "sendMessage JSON_parse [StdoutData (ascii ''null'')] (Some 0)
   = ([OnEvent JNull, OnTextChunk (JStr (js ''null'')), OnComplete (JStr (js ''null'')) None],
      Resolved)"
proof -
  have "TextDecoder_decode (ascii ''null'') = js ''null''"
    by (rule TextDecoder_decode_ascii) simp
  then have d: "stdoutTextOf [StdoutData (ascii ''null'')] = js ''null''"
    by simp
  have n: "LF \<notin> set (stdoutTextOf [StdoutData (ascii ''null'')])"
    unfolding d by (simp add: LF_in_js)
  show ?thesis
    unfolding session_no_line [OF n] d
    by (simp add: closeHandler_def finalPass_def catchBranch_def trim_null parse_null newSession_def)
qed

text \<open>
  A record whose \<open>text\<close> is the number 123: the number is passed on and becomes the
  accumulated output, and a line of plain text after it is appended to its decimal
  rendering. A number literal is read as the double nearest to it.
\<close>

lemma ToString_123: "ToString (JNum (Num 123)) = Some (js ''123'')"
  by code_simp

lemma parse_1e23: "JSON_parse (js ''1e23'') = Some (JNum (Num 99999999999999991611392))"
  by code_simp

lemma processLine_numeric_text:
  "processLine JSON_parse st
     (js ''{\"type\":\"item.completed\",\"item\":{\"type\":\"agent_message\",\"text\":123}}'')
   = (st\<lparr>fullText := JNum (Num 123)\<rparr>,
      [OnEvent (JObj [(js ''type'', JStr (js ''item.completed'')),
                      (js ''item'', JObj [(js ''type'', JStr (js ''agent_message'')),
                                          (js ''text'', JNum (Num 123))])]),
       OnTextChunk (JNum (Num 123))],
      Normal)"
proof -
  let ?l = "js ''{\"type\":\"item.completed\",\"item\":{\"type\":\"agent_message\",\"text\":123}}''"
  let ?e = "JObj [(js ''type'', JStr (js ''item.completed'')),
                  (js ''item'', JObj [(js ''type'', JStr (js ''agent_message'')),
                                      (js ''text'', JNum (Num 123))])]"
  have t: "trim ?l = ?l"
    by code_simp
  have p: "JSON_parse ?l = Some ?e"
    by code_simp
  have g: "getProp ?e ''type'' = Some (JStr (js ''item.completed''))"
    "getProp ?e ''usage'' = None"
    "agentMessageText ?e = Some (JNum (Num 123))"
    by (simp_all add: getProp_def agentMessageText_def optChain_def)
  show ?thesis
    by (simp add: processLine_def Let_def t p g)
qed

lemma processLine_after_numeric_text:
  "processLine JSON_parse (st\<lparr>fullText := JNum (Num 123)\<rparr>) (js ''  hi'')
   = (st\<lparr>fullText := JStr (js ''123hi'' @ [LF])\<rparr>, [OnTextChunk (JStr (js ''hi'' @ [LF]))], Normal)"
  by (simp add: processLine_def Let_def trim_indented parse_plain ToString_123 del: ToString.simps)
     (simp add: js_def)

text \<open>
  The accumulated output cannot be converted to a string when it is an object with a
  member named \<open>toString\<close>: a line that is not JSON then ends the loop, and no callback
  is invoked for it.
\<close>

lemma processLine_not_json_TypeError:
  "trim line \<noteq> [] \<Longrightarrow> parse (trim line) = None \<Longrightarrow> ToString (fullText st) = None \<Longrightarrow>
   processLine parse st line = (st, [], TypeError)"
  by (simp add: processLine_def Let_def)

lemma ToString_object:
  "ToString (JObj [(js ''toString'', JNum (Num 1))]) = None"
  "ToString (JObj [(js ''a'', JNum (Num 1))]) = Some (js ''[object Object]'')"
  "ToString (JArr [JNum (Num 123), JNull, JStr (js ''a'')]) = Some (js ''123,,a'')"
  by code_simp+


section \<open>Completion callbacks\<close>

text \<open>
  Claim C1, as stated: exactly one of \<open>onComplete\<close> and \<open>onError\<close> over the session, also
  for a stream with a \<open>turn.failed\<close> record. When the process writes the line of a failed
  turn and exits with status 0, \<open>onError\<close> is invoked for the record and \<open>onComplete\<close> at
  close: two completion callbacks.
\<close>

theorem sendMessage_turn_failed_counterexample:
  "sendMessage JSON_parse [StdoutData (ascii (turnFailedLine @ ''\<newline>''))] (Some 0)
     = ([OnEvent turnFailedEvent, OnError (JStr (js ''boom'')), OnComplete (JStr []) None], Resolved)
   \<and> length (filter isCompletion
         (fst (sendMessage JSON_parse [StdoutData (ascii (turnFailedLine @ ''\<newline>''))] (Some 0))))
       = 2"
  by (simp add: session_turnFailed)

text \<open>
  Claim C1, amended. For every session whose process spawns and every exit status (0,
  nonzero, or none when the process was killed), the close handler, when it runs to
  its end, invokes exactly one of \<open>onComplete\<close> and \<open>onError\<close>. The data handler invokes
  \<open>onError\<close> once for each \<open>turn.failed\<close> or \<open>error\<close> record that it reads from a complete
  line. So over a session in which no handler ends with an exception and the stdout
  text after the last line terminator is not such a record, the number of \<open>onComplete\<close>
  and \<open>onError\<close> invocations is one plus the number of complete stdout lines that hold
  a \<open>turn.failed\<close> or \<open>error\<close> record: exactly one when the stream has no such line.
\<close>

theorem sendMessage_completions:
  "(snd (snd (closeHandler parse st code)) \<noteq> Pending \<longrightarrow>
      length (filter isCompletion (fst (snd (closeHandler parse st code)))) = 1)
   \<and> (snd (snd (runEvents parse newSession events)) = Normal
        \<and> snd (sendMessage parse events code) \<noteq> Pending
        \<and> \<not> errorRecordLine parse (last (split_nl (stdoutTextOf events)))
      \<longrightarrow> length (filter isCompletion (fst (sendMessage parse events code)))
            = 1 + length (filter (errorRecordLine parse) (completeLines (stdoutTextOf events))))"
proof (intro conjI impI)
  assume "snd (snd (closeHandler parse st code)) \<noteq> Pending"
  then show "length (filter isCompletion (fst (snd (closeHandler parse st code)))) = 1"
    by (rule completions_closeHandler)
next
  assume a: "snd (snd (runEvents parse newSession events)) = Normal
        \<and> snd (sendMessage parse events code) \<noteq> Pending
        \<and> \<not> errorRecordLine parse (last (split_nl (stdoutTextOf events)))"
  have nolf: "LF \<notin> set (stdoutBuffer newSession)"
    by (simp add: newSession_def)
  obtain s c x where pl: "processLines parse newSession (completeLines (stdoutTextOf events)) = (s, c, x)"
    by (cases "processLines parse newSession (completeLines (stdoutTextOf events))")
  from a have "runEvents parse newSession events =
     (case stdoutText parse newSession (stdoutTextOf events) of
        (st', calls, exit) \<Rightarrow>
          (st'\<lparr>stderrBuffer := stderrBuffer newSession @ stderrTextOf events\<rparr>, calls, exit))"
    by (intro runEvents_eq [OF nolf]) simp
  with a pl have x: "x = Normal"
    by (simp add: stdoutText_newSession)
  let ?s' = "s\<lparr>stdoutBuffer := last (split_nl (stdoutTextOf events)),
               stderrBuffer := stderrTextOf events\<rparr>"
  obtain s2 c2 out where cl: "closeHandler parse ?s' code = (s2, c2, out)"
    by (cases "closeHandler parse ?s' code")
  from sendMessage_eq [OF pl [unfolded x], of code] cl
  have sm: "sendMessage parse events code = (c @ c2, out)"
    by simp
  with a have "out \<noteq> Pending"
    by simp
  with completions_closeHandler [of parse ?s' code] cl
  have n2: "length (filter isCompletion c2) = 1" by simp
  from completions_processLines [of parse newSession "completeLines (stdoutTextOf events)"] pl x
  have n1: "length (filter isCompletion c)
      = length (filter (errorRecordLine parse) (completeLines (stdoutTextOf events)))"
    by simp
  from sm n1 n2
  show "length (filter isCompletion (fst (sendMessage parse events code)))
            = 1 + length (filter (errorRecordLine parse) (completeLines (stdoutTextOf events)))"
    by simp
qed

text \<open>
  The line of a failed turn, terminated, and exit status 3: \<open>onError\<close> for the record
  and \<open>onError\<close> at close.
\<close>

theorem sendMessage_completions_witness:
  "snd (snd (closeHandler JSON_parse newSession (Some 3))) \<noteq> Pending
   \<and> length (filter isCompletion (fst (snd (closeHandler JSON_parse newSession (Some 3))))) = 1
   \<and> snd (snd (runEvents JSON_parse newSession
                 [StdoutData (ascii (turnFailedLine @ ''\<newline>''))])) = Normal
   \<and> sendMessage JSON_parse [StdoutData (ascii (turnFailedLine @ ''\<newline>''))] (Some 3)
       = ([OnEvent turnFailedEvent, OnError (JStr (js ''boom'')),
           OnError (JStr (js ''Codex exited with code 3''))],
          Rejected (js ''Codex exited with code 3''))
   \<and> \<not> errorRecordLine JSON_parse
         (last (split_nl (stdoutTextOf [StdoutData (ascii (turnFailedLine @ ''\<newline>''))])))
   \<and> length (filter isCompletion
         (fst (sendMessage JSON_parse [StdoutData (ascii (turnFailedLine @ ''\<newline>''))] (Some 3))))
       = 2"
proof -
  let ?events = "[StdoutData (ascii (turnFailedLine @ ''\<newline>''))]"
  have d: "stdoutTextOf ?events = js turnFailedLine @ [LF]"
    by (simp add: decode_turnFailedLine)
  have sh: "showInt 3 = js ''3''"
    by (simp add: showInt_def digitChar_def js_def)
  have cl: "closeHandler JSON_parse newSession (Some 3)
      = (newSession, [OnError (JStr (js ''Codex exited with code 3''))],
         Rejected (js ''Codex exited with code 3''))"
    by (simp add: closeHandler_def finalPass_def newSession_def trim_Nil sh) (simp add: js_def)
  have run: "runEvents JSON_parse newSession ?events
      = (newSession, [OnEvent turnFailedEvent, OnError (JStr (js ''boom''))], Normal)"
    by (simp add: stdoutData_def decode_turnFailedLine stdoutText_eq)
       (simp add: newSession_def split_nl_line line_no_LF processLine_turnFailedLine)
  have sm: "sendMessage JSON_parse ?events (Some 3)
      = ([OnEvent turnFailedEvent, OnError (JStr (js ''boom'')),
          OnError (JStr (js ''Codex exited with code 3''))],
         Rejected (js ''Codex exited with code 3''))"
    unfolding sendMessage_def run by (simp add: cl)
  have left: "\<not> errorRecordLine JSON_parse (last (split_nl (stdoutTextOf ?events)))"
    unfolding d last_split_line [OF line_no_LF(2)]
    by (simp add: errorRecordLine_def trim_Nil split: option.splits)
  have lines: "filter (errorRecordLine JSON_parse) (completeLines (stdoutTextOf ?events))
      = [js turnFailedLine]"
    unfolding d completeLines_line [OF line_no_LF(2)]
    by (simp add: errorRecordLine_def trim_turnFailedLine parse_turnFailedLine line_not_Nil
        getProp_turnFailedEvent)
  have h1: "snd (snd (closeHandler JSON_parse newSession (Some 3))) \<noteq> Pending"
    by (simp add: cl)
  have h2: "snd (snd (runEvents JSON_parse newSession ?events)) = Normal"
    unfolding run by simp
  have h3: "snd (sendMessage JSON_parse ?events (Some 3)) \<noteq> Pending"
    unfolding sm by simp
  from sendMessage_completions [of JSON_parse newSession "Some 3" ?events] h1 h2 h3 left
  have "length (filter isCompletion (fst (snd (closeHandler JSON_parse newSession (Some 3))))) = 1"
    and "length (filter isCompletion (fst (sendMessage JSON_parse ?events (Some 3))))
       = 1 + length (filter (errorRecordLine JSON_parse) (completeLines (stdoutTextOf ?events)))"
    by blast+
  then have "length (filter isCompletion (fst (snd (closeHandler JSON_parse newSession (Some 3))))) = 1"
    and "length (filter isCompletion (fst (sendMessage JSON_parse ?events (Some 3)))) = 2"
    unfolding lines by simp_all
  with h1 h2 sm left show ?thesis
    by blast
qed


section \<open>The outcome at close\<close>

lemma catchBranch_no_error:
  "(\<And>m. OnError m \<notin> set calls) \<Longrightarrow> OnError m \<notin> set (fst (snd (catchBranch st calls)))"
  by (simp add: catchBranch_def split: option.splits)

lemma finalPass_no_error: "OnError m \<notin> set (fst (snd (finalPass parse st)))"
  by (simp add: finalPass_def catchBranch_no_error split: option.splits)

text \<open>
  Claim C2. At close, with the accumulated text and usage as the pass over the rest of
  the stdout buffer leaves them: when the exit status is 0, or any text was accumulated
  whatever the exit status, \<open>onComplete\<close> is invoked with the accumulated text and the
  last usage, and the promise resolves. When the exit status is a nonzero integer and no
  text was accumulated, \<open>onError\<close> is invoked with the exit code, followed by the first
  500 characters at most of stderr when stderr is not blank, and the promise rejects.
  When the exit status is null, \<open>onComplete\<close> is invoked with the accumulated text, empty
  or not, the promise resolves, and the close handler invokes no \<open>onError\<close>. Text was
  accumulated when the accumulated output is truthy: for a string, when it is not
  empty.
\<close>

theorem closeHandler_outcome:
  assumes "finalPass parse st = (st1, calls1, Normal)"
  shows "(code = Some 0 \<or> truthy (fullText st1) \<longrightarrow>
            closeHandler parse st code
              = (st1, calls1 @ [OnComplete (fullText st1) (lastUsage st1)], Resolved))
       \<and> (\<forall>c. code = Some c \<and> c \<noteq> 0 \<and> \<not> truthy (fullText st1) \<longrightarrow>
            closeHandler parse st code
              = (st1,
                 calls1 @ [OnError (JStr (js ''Codex exited with code '' @ showInt c
                                    @ (if trim (stderrBuffer st1) \<noteq> []
                                       then js ''. '' @ take 500 (stderrBuffer st1) else [])))],
                 Rejected (js ''Codex exited with code '' @ showInt c))
            \<and> length (take 500 (stderrBuffer st1)) \<le> 500)
       \<and> (code = None \<longrightarrow>
            closeHandler parse st code
              = (st1, calls1 @ [OnComplete (fullText st1) (lastUsage st1)], Resolved)
            \<and> (\<forall>m. OnError m \<notin> set (fst (snd (closeHandler parse st code)))))
       \<and> (\<forall>s. truthy (JStr s) \<longleftrightarrow> s \<noteq> [])"
proof -
  from finalPass_no_error [of _ parse st] assms have "\<And>m. OnError m \<notin> set calls1"
    by simp
  with assms show ?thesis
    by (auto simp: closeHandler_def)
qed

theorem closeHandler_outcome_witness:
  "finalPass JSON_parse (newSession\<lparr>stderrBuffer := js ''denied''\<rparr>)
     = (newSession\<lparr>stderrBuffer := js ''denied''\<rparr>, [], Normal)
   \<and> closeHandler JSON_parse (newSession\<lparr>stderrBuffer := js ''denied''\<rparr>) (Some 0)
       = (newSession\<lparr>stderrBuffer := js ''denied''\<rparr>, [OnComplete (JStr []) None], Resolved)
   \<and> closeHandler JSON_parse (newSession\<lparr>stderrBuffer := js ''denied''\<rparr>) (Some 2)
       = (newSession\<lparr>stderrBuffer := js ''denied''\<rparr>,
          [OnError (JStr (js ''Codex exited with code '' @ js ''2'' @ js ''. '' @ js ''denied''))],
          Rejected (js ''Codex exited with code '' @ js ''2''))
   \<and> closeHandler JSON_parse (newSession\<lparr>stderrBuffer := js ''denied''\<rparr>) None
       = (newSession\<lparr>stderrBuffer := js ''denied''\<rparr>, [OnComplete (JStr []) None], Resolved)"
proof -
  let ?st = "newSession\<lparr>stderrBuffer := js ''denied''\<rparr>"
  have fp: "finalPass JSON_parse ?st = (?st, [], Normal)"
    by (simp add: finalPass_def newSession_def trim_Nil)
  have tr: "trim (js ''denied'') = js ''denied''"
    by code_simp
  have sh: "showInt 2 = js ''2''"
    by (simp add: showInt_def digitChar_def js_def)
  have ft: "fullText ?st = JStr []" "stderrBuffer ?st = js ''denied''" "lastUsage ?st = None"
    by (simp_all add: newSession_def)
  from closeHandler_outcome [OF fp, of "Some 0"] closeHandler_outcome [OF fp, of "Some 2"]
    closeHandler_outcome [OF fp, of None] fp
  show ?thesis
    by (simp add: ft tr sh)
qed


section \<open>Chunk boundaries\<close>

text \<open>
  Claim C3. The stdout stream is the line of an assistant message whose text is
  \<open>caf\<close>, U+00E9, with its terminator. Cut into two chunks between the two bytes of the
  last character, it gives \<open>onTextChunk\<close> and \<open>onComplete\<close> the text \<open>caf\<close>, U+FFFD,
  U+FFFD; in one chunk it gives them \<open>caf\<close>, U+00E9.
\<close>

theorem stdout_chunk_boundary_in_character:
  "sendMessage JSON_parse
     [StdoutData (ascii cafePrefix @ [0xC3]), StdoutData (0xA9 # ascii (cafeSuffix @ ''\<newline>''))]
     (Some 0)
   = ([OnEvent (agentMessage (js ''caf'' @ [0xFFFD, 0xFFFD])),
       OnTextChunk (JStr (js ''caf'' @ [0xFFFD, 0xFFFD])),
       OnComplete (JStr (js ''caf'' @ [0xFFFD, 0xFFFD])) None],
      Resolved)
   \<and> sendMessage JSON_parse
       [StdoutData (ascii cafePrefix @ 0xC3 # 0xA9 # ascii (cafeSuffix @ ''\<newline>''))]
       (Some 0)
     = ([OnEvent (agentMessage (js ''caf'' @ [0xE9])),
         OnTextChunk (JStr (js ''caf'' @ [0xE9])),
         OnComplete (JStr (js ''caf'' @ [0xE9])) None],
        Resolved)
   \<and> (ascii cafePrefix @ [0xC3]) @ (0xA9 # ascii (cafeSuffix @ ''\<newline>''))
       = ascii cafePrefix @ 0xC3 # 0xA9 # ascii (cafeSuffix @ ''\<newline>'')"
  by (simp add: session_cafe_split session_cafe_whole)


section \<open>Lines that are not JSON\<close>

text \<open>
  Claim C4, as stated: \<open>onTextChunk\<close> receives the raw line plus a newline. For the line
  of two blanks and \<open>hi\<close> it receives \<open>hi\<close> plus a newline, and the raw line plus a
  newline is passed to no callback.
\<close>

theorem raw_line_counterexample:
  "sendMessage JSON_parse [StdoutData (ascii ''  hi\<newline>'')] (Some 0)
     = ([OnTextChunk (JStr (js ''hi'' @ [LF])), OnComplete (JStr (js ''hi'' @ [LF])) None], Resolved)
   \<and> OnTextChunk (JStr (js ''  hi'' @ [LF]))
       \<notin> set (fst (sendMessage JSON_parse [StdoutData (ascii ''  hi\<newline>'')] (Some 0)))"
proof -
  have "js ''hi'' \<noteq> js ''  hi''"
    by simp
  then show ?thesis
    by (simp add: session_indented)
qed

text \<open>
  Claim C4, amended. For every complete stdout line that is not blank and fails JSON
  decoding, \<open>onTextChunk\<close> receives the trimmed line plus a newline, the same text is
  appended to the accumulated output (to the accumulated output as a string: itself
  when it is one), and no other callback (so no \<open>onEvent\<close>) is invoked for the line.
  A blank line is skipped: no callback, no change.
\<close>

theorem processLine_not_json:
  "(trim line \<noteq> [] \<and> parse (trim line) = None \<and> ToString (fullText st) = Some s \<longrightarrow>
      processLine parse st line
        = (st\<lparr>fullText := JStr (s @ trim line @ [LF])\<rparr>, [OnTextChunk (JStr (trim line @ [LF]))],
           Normal))
   \<and> (trim line = [] \<longrightarrow> processLine parse st line = (st, [], Normal))
   \<and> ToString (JStr s) = Some s"
  by (simp add: processLine_def Let_def)

theorem processLine_not_json_witness:
  "trim (js ''  hi'') \<noteq> [] \<and> JSON_parse (trim (js ''  hi'')) = None
   \<and> ToString (fullText (newSession\<lparr>fullText := JStr (js ''draft'')\<rparr>)) = Some (js ''draft'')
   \<and> processLine JSON_parse (newSession\<lparr>fullText := JStr (js ''draft'')\<rparr>) (js ''  hi'')
       = (newSession\<lparr>fullText := JStr (js ''draft'' @ js ''hi'' @ [LF])\<rparr>,
          [OnTextChunk (JStr (js ''hi'' @ [LF]))], Normal)
   \<and> trim (js ''   '') = []
   \<and> processLine JSON_parse newSession (js ''   '') = (newSession, [], Normal)"
  using processLine_not_json [of "js ''  hi''" JSON_parse "newSession\<lparr>fullText := JStr (js ''draft'')\<rparr>"
      "js ''draft''"]
    processLine_not_json [of "js ''   ''" JSON_parse newSession]
  by (simp add: trim_indented parse_plain trim_blank)


section \<open>Completed assistant messages\<close>

text \<open>
  Claim C5. For every record decoded from a complete line whose item is an assistant
  message (item type \<open>agent_message\<close>, with a text that is truthy: for a string, not
  empty) and whose own type is \<open>item.completed\<close>, the handler invokes \<open>onEvent\<close> with the
  record, replaces the accumulated output by the item's text, whatever it was, and
  passes the text to \<open>onTextChunk\<close>. A session whose process writes the single line
  \<open>{"type":"item.completed","item":{"type":"agent_message","text":"Hi there"}}\<close>, ended
  by its newline, and exits with status 0 invokes \<open>onEvent\<close>, then \<open>onTextChunk("Hi there")\<close>, then
  \<open>onComplete("Hi there", undefined)\<close>, and resolves.
\<close>

theorem processLine_agent_message_completed:
  assumes "trim line \<noteq> []"
    and "parse (trim line) = Some event"
    and "getProp event ''type'' = Some (JStr (js ''item.completed''))"
    and "getProp event ''item'' = Some it"
    and "getProp it ''type'' = Some (JStr (js ''agent_message''))"
    and "getProp it ''text'' = Some t"
    and "truthy t"
  shows "processLine parse st line = (st\<lparr>fullText := t\<rparr>, [OnEvent event, OnTextChunk t], Normal)
       \<and> sendMessage JSON_parse [StdoutData (ascii (agentMessageLine @ ''\<newline>''))] (Some 0)
           = ([OnEvent (agentMessage (js ''Hi there'')), OnTextChunk (JStr (js ''Hi there'')),
               OnComplete (JStr (js ''Hi there'')) None],
              Resolved)"
proof -
  from assms(3) have ev: "event \<noteq> JNull"
    by (auto simp: getProp_def)
  from assms(5) have it: "it \<noteq> JNull"
    by (auto simp: getProp_def)
  from assms(4-7) it have am: "agentMessageText event = Some t"
    by (simp add: agentMessageText_def optChain_def)
  have "processLine parse st line = (st\<lparr>fullText := t\<rparr>, [OnEvent event, OnTextChunk t], Normal)"
    using assms(1-3) ev am
    by (simp add: processLine_def Let_def js_def split: option.splits)
  with session_agentMessage show ?thesis
    by simp
qed

theorem processLine_agent_message_completed_witness:
  "trim (js agentMessageLine) \<noteq> []
   \<and> JSON_parse (trim (js agentMessageLine)) = Some (agentMessage (js ''Hi there''))
   \<and> truthy (JStr (js ''Hi there''))
   \<and> processLine JSON_parse (newSession\<lparr>fullText := JStr (js ''draft'')\<rparr>) (js agentMessageLine)
       = (newSession\<lparr>fullText := JStr (js ''Hi there'')\<rparr>,
          [OnEvent (agentMessage (js ''Hi there'')), OnTextChunk (JStr (js ''Hi there''))], Normal)"
proof -
  let ?it = "JObj [(js ''type'', JStr (js ''agent_message'')), (js ''text'', JStr (js ''Hi there''))]"
  have h1: "trim (js agentMessageLine) \<noteq> []"
    by (simp add: trim_agentMessageLine line_not_Nil)
  have h2: "JSON_parse (trim (js agentMessageLine)) = Some (agentMessage (js ''Hi there''))"
    by (simp add: trim_agentMessageLine parse_agentMessageLine)
  have h3: "getProp (agentMessage (js ''Hi there'')) ''type'' = Some (JStr (js ''item.completed''))"
    by (rule getProp_agentMessage)
  have h4: "getProp (agentMessage (js ''Hi there'')) ''item'' = Some ?it"
    by (rule getProp_agentMessage)
  have h5: "getProp ?it ''type'' = Some (JStr (js ''agent_message''))"
    by (simp add: getProp_def)
  have h6: "getProp ?it ''text'' = Some (JStr (js ''Hi there''))"
    by (simp add: getProp_def)
  have h7: "truthy (JStr (js ''Hi there''))"
    by simp
  from processLine_agent_message_completed [of "js agentMessageLine" JSON_parse
      "agentMessage (js ''Hi there'')" ?it "JStr (js ''Hi there'')"
      "newSession\<lparr>fullText := JStr (js ''draft'')\<rparr>", OF h1 h2 h3 h4 h5 h6 h7] h1 h2 h7
  show ?thesis
    by (simp add: newSession_def)
qed


section \<open>The rest of the buffer at close\<close>

text \<open>
  Claim C7. The same line is the last of the stream, once with its terminator, so that
  the data handler reads it, and once without, so that the close handler does. For the
  line of a complete assistant message the data handler invokes \<open>onTextChunk\<close> with the
  text and the close handler does not. For the line of a failed turn the data handler
  invokes \<open>onError\<close> with the record's message and the close handler does not.
\<close>

theorem finalPass_skips_callbacks:
  "sendMessage JSON_parse [StdoutData (ascii (agentMessageLine @ ''\<newline>''))] (Some 0)
     = ([OnEvent (agentMessage (js ''Hi there'')), OnTextChunk (JStr (js ''Hi there'')),
         OnComplete (JStr (js ''Hi there'')) None],
        Resolved)
   \<and> sendMessage JSON_parse [StdoutData (ascii agentMessageLine)] (Some 0)
     = ([OnEvent (agentMessage (js ''Hi there'')), OnComplete (JStr (js ''Hi there'')) None], Resolved)
   \<and> sendMessage JSON_parse [StdoutData (ascii (turnFailedLine @ ''\<newline>''))] (Some 0)
     = ([OnEvent turnFailedEvent, OnError (JStr (js ''boom'')), OnComplete (JStr []) None], Resolved)
   \<and> sendMessage JSON_parse [StdoutData (ascii turnFailedLine)] (Some 0)
     = ([OnEvent turnFailedEvent, OnComplete (JStr []) None], Resolved)"
  by (simp add: session_agentMessage session_agentMessage_unterminated
      session_turnFailed session_turnFailed_unterminated)

end
